theory Spec2Isabelle
  imports Main "HOL-Library.AList"
begin

section \<open>Values of the results tree\<close>

text \<open>
  The report module (\<^verbatim>\<open>modules/report.py\<close>) works on the nested dictionaries that the
  scanning phase hands over. They are JSON-like values: \<^verbatim>\<open>None\<close>, booleans, integers,
  strings, lists and dictionaries with string keys. A dictionary is an association list
  in insertion order, which is the order Python iterates it in; its keys are distinct.
  A \<open>char\<close> stands for one character of a Python string.
  Values are trees: two places of a results tree never share one mutable object.
\<close>

datatype pyval =
    PNone
  | PBool bool
  | PInt int
  | PStr string
  | PList "pyval list"
  | PDict "(string \<times> pyval) list"

type_synonym pydict = "(string \<times> pyval) list"

text \<open>
  Exceptions. \<open>KeyError k\<close> is Python's \<^verbatim>\<open>KeyError\<close> for the missing key \<open>k\<close>.
  \<open>IllTyped\<close> stands for every exception that Python raises because a value has not
  the type an operation needs (\<^verbatim>\<open>TypeError\<close>, \<^verbatim>\<open>AttributeError\<close>, \<^verbatim>\<open>ValueError\<close>,
  \<^verbatim>\<open>IndexError\<close>); these are not told apart. \<open>Unrepresentable\<close> is no exception of
  Python: it marks a run in which a dictionary would receive a key that is not a string,
  which the values above cannot hold. Nothing is stated about such a run.
\<close>

datatype error = KeyError string | IllTyped | Unrepresentable

subsection \<open>The operations of Python that the module uses\<close>

text \<open>\<^verbatim>\<open>k in s\<close> for two strings: \<open>k\<close> occurs in \<open>s\<close> as a contiguous piece.\<close>

fun py_substring :: "string \<Rightarrow> string \<Rightarrow> bool" where
  "py_substring k [] = (k = [])"
| "py_substring k (c # s) = (take (length k) (c # s) = k \<or> py_substring k s)"

text \<open>\<^verbatim>\<open>k in v\<close> for a string \<open>k\<close>: a key of a dictionary, an element of a list, a piece
  of a string; any other value is not iterable.\<close>

fun py_in :: "string \<Rightarrow> pyval \<Rightarrow> error + bool" where
  "py_in k (PDict d) = Inr (map_of d k \<noteq> None)"
| "py_in k (PList xs) = Inr (PStr k \<in> set xs)"
| "py_in k (PStr s) = Inr (py_substring k s)"
| "py_in k PNone = Inl IllTyped"
| "py_in k (PBool b) = Inl IllTyped"
| "py_in k (PInt i) = Inl IllTyped"

text \<open>\<^verbatim>\<open>v[k]\<close> for a string \<open>k\<close>: only a dictionary can be indexed by a string.\<close>

fun py_getitem :: "pyval \<Rightarrow> string \<Rightarrow> error + pyval" where
  "py_getitem (PDict d) k = (case map_of d k of None \<Rightarrow> Inl (KeyError k) | Some v \<Rightarrow> Inr v)"
| "py_getitem v k = Inl IllTyped"

text \<open>\<^verbatim>\<open>del v[k]\<close>.\<close>

fun py_delitem :: "pyval \<Rightarrow> string \<Rightarrow> error + pyval" where
  "py_delitem (PDict d) k =
     (if map_of d k = None then Inl (KeyError k) else Inr (PDict (AList.delete k d)))"
| "py_delitem v k = Inl IllTyped"

text \<open>\<^verbatim>\<open>v[k] = x\<close>: an existing key keeps its place, a new key goes to the end.\<close>

fun py_setitem :: "pyval \<Rightarrow> string \<Rightarrow> pyval \<Rightarrow> error + pyval" where
  "py_setitem (PDict d) k x = Inr (PDict (AList.update k x d))"
| "py_setitem v k x = Inl IllTyped"

text \<open>\<^verbatim>\<open>v.copy()\<close>: dictionaries and lists have the method. The copy is shallow; on
  values without sharing it is the value itself.\<close>

fun py_copy :: "pyval \<Rightarrow> error + pyval" where
  "py_copy (PDict d) = Inr (PDict d)"
| "py_copy (PList xs) = Inr (PList xs)"
| "py_copy v = Inl IllTyped"

text \<open>Truth value of a value, as \<^verbatim>\<open>if v:\<close> tests it.\<close>

fun truthy :: "pyval \<Rightarrow> bool" where
  "truthy PNone = False"
| "truthy (PBool b) = b"
| "truthy (PInt i) = (i \<noteq> 0)"
| "truthy (PStr s) = (s \<noteq> [])"
| "truthy (PList xs) = (xs \<noteq> [])"
| "truthy (PDict d) = (d \<noteq> [])"

text \<open>Sequencing two steps of which the first can raise.\<close>

fun and_then :: "error + 'a \<Rightarrow> ('a \<Rightarrow> error + 'b) \<Rightarrow> error + 'b" where
  "and_then (Inl e) f = Inl e"
| "and_then (Inr x) f = f x"

text \<open>
  An element of a sequence of pairs, as \<^verbatim>\<open>dict.update\<close> and
  \<^verbatim>\<open>MutableMapping.update\<close> unpack it when their argument is not a mapping: a list of
  two items, a string of two characters, or a dictionary of two keys (iterated, it gives
  its keys). The first item is the key.
\<close>

fun as_pair :: "pyval \<Rightarrow> error + (pyval \<times> pyval)" where
  "as_pair (PList [k, v]) = Inr (k, v)"
| "as_pair (PStr [a, b]) = Inr (PStr [a], PStr [b])"
| "as_pair (PDict [(k1, v1), (k2, v2)]) = Inr (PStr k1, PStr k2)"
| "as_pair v = Inl IllTyped"

fun as_pairs :: "pyval list \<Rightarrow> error + (pyval \<times> pyval) list" where
  "as_pairs [] = Inr []"
| "as_pairs (x # xs) =
     (case as_pair x of
        Inl e \<Rightarrow> Inl e
      | Inr p \<Rightarrow> (case as_pairs xs of Inl e \<Rightarrow> Inl e | Inr ps \<Rightarrow> Inr (p # ps)))"

text \<open>\<^verbatim>\<open>m.update(x)\<close> on a dictionary \<open>m\<close>: every key of \<open>x\<close> is assigned in \<open>m\<close>, in
  the order of \<open>x\<close>. From a sequence of pairs, a key that is a list or a dictionary
  cannot be hashed; \<^verbatim>\<open>None\<close>, a boolean or an integer is accepted as a key by Python
  and leaves this model.\<close>

definition assign_all :: "pydict \<Rightarrow> pydict \<Rightarrow> pydict" where
  "assign_all m d = fold (\<lambda>(k, v) acc. AList.update k v acc) d m"

fun assign_pairs :: "pydict \<Rightarrow> (pyval \<times> pyval) list \<Rightarrow> error + pydict" where
  "assign_pairs m [] = Inr m"
| "assign_pairs m ((PStr k, v) # ps) = assign_pairs (AList.update k v m) ps"
| "assign_pairs m ((PList xs, v) # ps) = Inl IllTyped"
| "assign_pairs m ((PDict d, v) # ps) = Inl IllTyped"
| "assign_pairs m ((PNone, v) # ps) = Inl Unrepresentable"
| "assign_pairs m ((PBool b, v) # ps) = Inl Unrepresentable"
| "assign_pairs m ((PInt i, v) # ps) = Inl Unrepresentable"

fun dict_update :: "pydict \<Rightarrow> pyval \<Rightarrow> error + pydict" where
  "dict_update m (PDict d) = Inr (assign_all m d)"
| "dict_update m (PList xs) =
     (case as_pairs xs of Inl e \<Rightarrow> Inl e | Inr ps \<Rightarrow> assign_pairs m ps)"
| "dict_update m v = Inl IllTyped"

section \<open>Result extraction\<close>

text \<open>
  \<^verbatim>\<open>Report.__extract_results\<close> (lines 148 to 165). The loop body for one host record:
  \<^verbatim>\<open>
  if "loaded_modules" in res[hostname]:
      modules.update(res[hostname]["loaded_modules"].copy())
      del res[hostname]["loaded_modules"]
      res[hostname] = res[hostname]["results"]
  \<close>
  The dictionary \<^verbatim>\<open>res\<close> is the caller's object and is changed in place, so the model
  returns the record as the body leaves it together with the outcome: the exception
  raised, or the catalogue \<^verbatim>\<open>modules\<close> after the body.
\<close>

definition extract_host :: "pyval \<Rightarrow> pydict \<Rightarrow> pyval \<times> (error + pydict)" where
  "extract_host r modules =
     (case py_in ''loaded_modules'' r of
        Inl e \<Rightarrow> (r, Inl e)
      | Inr False \<Rightarrow> (r, Inr modules)
      | Inr True \<Rightarrow>
         (case py_getitem r ''loaded_modules'' of
            Inl e \<Rightarrow> (r, Inl e)
          | Inr lm \<Rightarrow>
             (case py_copy lm of
                Inl e \<Rightarrow> (r, Inl e)
              | Inr lm' \<Rightarrow>
                 (case dict_update modules lm' of
                    Inl e \<Rightarrow> (r, Inl e)
                  | Inr modules' \<Rightarrow>
                     (case py_delitem r ''loaded_modules'' of
                        Inl e \<Rightarrow> (r, Inl e)
                      | Inr r' \<Rightarrow>
                         (case py_getitem r' ''results'' of
                            Inl e \<Rightarrow> (r', Inl e)
                          | Inr v \<Rightarrow> (v, Inr modules')))))))"

text \<open>The loop \<^verbatim>\<open>for hostname in res\<close>: the records are visited in order, the catalogue
  is threaded through, and an exception leaves the later records untouched.\<close>

fun extract_loop :: "pydict \<Rightarrow> pydict \<Rightarrow> pydict \<times> (error + pydict)" where
  "extract_loop [] modules = ([], Inr modules)"
| "extract_loop ((hostname, r) # rest) modules =
     (case extract_host r modules of
        (r', Inl e) \<Rightarrow> ((hostname, r') # rest, Inl e)
      | (r', Inr modules') \<Rightarrow>
         (case extract_loop rest modules' of
            (rest', out) \<Rightarrow> ((hostname, r') # rest', out)))"

text \<open>\<^verbatim>\<open>modules = {}\<close>, the loop, \<^verbatim>\<open>return res, modules\<close>. The first component is the
  tree \<^verbatim>\<open>res\<close> after the call, the second the exception or the returned catalogue.\<close>

definition extract_results :: "pydict \<Rightarrow> pydict \<times> (error + pydict)" where
  "extract_results res = extract_loop res []"

section \<open>The collaborators \<^verbatim>\<open>pruner\<close> and \<^verbatim>\<open>rec_search_key\<close>\<close>

text \<open>
  Modelled from the spec: \<^verbatim>\<open>utils.prune.pruner\<close> is imported by the module and its
  source is not part of the sources at hand. The specification says that it removes empty
  branches from a results tree. Here a branch is empty when, after its own pruning, it is
  \<^verbatim>\<open>None\<close>, the empty string, the empty list or the empty dictionary.
\<close>

fun is_empty_branch :: "pyval \<Rightarrow> bool" where
  "is_empty_branch PNone = True"
| "is_empty_branch (PStr s) = (s = [])"
| "is_empty_branch (PList xs) = (xs = [])"
| "is_empty_branch (PDict d) = (d = [])"
| "is_empty_branch (PBool b) = False"
| "is_empty_branch (PInt i) = False"

fun pruner_value :: "pyval \<Rightarrow> pyval" and pruner :: "pydict \<Rightarrow> pydict" where
  "pruner_value (PDict d) = PDict (pruner d)"
| "pruner_value PNone = PNone"
| "pruner_value (PBool b) = PBool b"
| "pruner_value (PInt i) = PInt i"
| "pruner_value (PStr s) = PStr s"
| "pruner_value (PList xs) = PList xs"
| "pruner [] = []"
| "pruner ((k, v) # rest) =
     (if is_empty_branch (pruner_value v) then pruner rest
      else (k, pruner_value v) # pruner rest)"

text \<open>
  Modelled from the spec: \<^verbatim>\<open>utils.validation.rec_search_key\<close> is imported by the
  module and its source is not part of the sources at hand. The specification (Mitigation
  Scanner) says: the values found under the key at any depth, in pre-order; below a match
  the search does not go on; a branch with none gives a null marker, which callers filter.
  The generator is shown as the list of what it yields. Dictionaries and lists are
  searched; any other value is a branch with none.
\<close>

fun rec_search_key :: "string \<Rightarrow> pyval \<Rightarrow> pyval list"
  and rec_search_items :: "string \<Rightarrow> pydict \<Rightarrow> pyval list"
  and rec_search_list :: "string \<Rightarrow> pyval list \<Rightarrow> pyval list" where
  "rec_search_key key (PDict d) = rec_search_items key d"
| "rec_search_key key (PList xs) = rec_search_list key xs"
| "rec_search_key key PNone = [PNone]"
| "rec_search_key key (PBool b) = [PNone]"
| "rec_search_key key (PInt i) = [PNone]"
| "rec_search_key key (PStr s) = [PNone]"
| "rec_search_items key [] = []"
| "rec_search_items key ((k, v) # rest) =
     (if k = key then [v] else rec_search_key key v) @ rec_search_items key rest"
| "rec_search_list key [] = []"
| "rec_search_list key (x # xs) = rec_search_key key x @ rec_search_list key xs"

section \<open>Compliance flattening\<close>

text \<open>\<^verbatim>\<open>v.get(k)\<close>: a method of dictionaries; a missing key gives \<^verbatim>\<open>None\<close>.\<close>

fun py_get :: "pyval \<Rightarrow> string \<Rightarrow> error + pyval" where
  "py_get (PDict d) k = Inr (case map_of d k of None \<Rightarrow> PNone | Some v \<Rightarrow> v)"
| "py_get v k = Inl IllTyped"

text \<open>
  \<^verbatim>\<open>Report.run\<close>, lines 216 to 227. The inner loop over the sheets of one host:
  \<^verbatim>\<open>
  for sheet in results[hostname][module]:
      if "mitigation" in results[hostname][module][sheet]:
          modules[module+"_"+sheet] = ""
          results[hostname][module+"_"+sheet] = results[hostname][module][sheet]
  \<close>
  The loop runs over the sheets in order; \<open>r\<close> is the host's record
  \<^verbatim>\<open>results[hostname]\<close>, which receives the new keys.
\<close>

fun sheet_loop :: "string \<Rightarrow> pydict \<Rightarrow> pyval \<Rightarrow> pydict \<Rightarrow> error + (pyval \<times> pydict)" where
  "sheet_loop module [] r modules = Inr (r, modules)"
| "sheet_loop module ((sheet, content) # rest) r modules =
     and_then (py_in ''mitigation'' content) (\<lambda>found.
       if found then
         and_then (py_setitem r (module @ ''_'' @ sheet) content) (\<lambda>r'.
           sheet_loop module rest r'
             (AList.update (module @ ''_'' @ sheet) (PStr []) modules))
       else sheet_loop module rest r modules)"

text \<open>
  The body of the loop over the hosts:
  \<^verbatim>\<open>
  if results[hostname].get(module):
      for sheet in results[hostname][module]: ...
  del results[hostname][module]
  \<close>
  When the value under the module is true and not a dictionary, the sheet loop raises in
  Python at its first round at the latest: a number is not iterable, a string cannot be
  indexed by its characters, and the elements of a list cannot all index the list and be
  searchable at once.
\<close>

definition flatten_host :: "string \<Rightarrow> pyval \<Rightarrow> pydict \<Rightarrow> error + (pyval \<times> pydict)" where
  "flatten_host module r modules =
     and_then (py_get r module) (\<lambda>x.
     and_then
       (if truthy x then
          (case x of
             PDict sheets \<Rightarrow> sheet_loop module sheets r modules
           | _ \<Rightarrow> Inl IllTyped)
        else Inr (r, modules)) (\<lambda>(r', modules').
     and_then (py_delitem r' module) (\<lambda>r''. Inr (r'', modules'))))"

fun flatten_loop :: "string \<Rightarrow> pydict \<Rightarrow> pydict \<Rightarrow> error + (pydict \<times> pydict)" where
  "flatten_loop module [] modules = Inr ([], modules)"
| "flatten_loop module ((hostname, r) # rest) modules =
     and_then (flatten_host module r modules) (\<lambda>(r', modules').
     and_then (flatten_loop module rest modules') (\<lambda>(rest', modules'').
       Inr ((hostname, r') # rest', modules'')))"

text \<open>
  \<^verbatim>\<open>
  if any([module in modules for module in ["compare_one", "compare_many"]]):
      module = "compare_one" if "compare_one" in modules else "compare_many"
      for hostname in results: ...
      del modules[module]
  \<close>
\<close>

definition compliance_module :: "pydict \<Rightarrow> string" where
  "compliance_module modules =
     (if map_of modules ''compare_one'' \<noteq> None then ''compare_one'' else ''compare_many'')"

definition compliance_flatten :: "pydict \<Rightarrow> pydict \<Rightarrow> error + (pydict \<times> pydict)" where
  "compliance_flatten results modules =
     (if map_of modules ''compare_one'' \<noteq> None \<or> map_of modules ''compare_many'' \<noteq> None then
        and_then (flatten_loop (compliance_module modules) results modules)
          (\<lambda>(results', modules').
             if map_of modules' (compliance_module modules) = None
             then Inl (KeyError (compliance_module modules))
             else Inr (results', AList.delete (compliance_module modules) modules'))
      else Inr (results, modules))"

section \<open>The split of raw output and mitigation\<close>

text \<open>
  \<^verbatim>\<open>Report.run\<close>, lines 229 to 243. The loop over what \<^verbatim>\<open>rec_search_key\<close> yields:
  \<^verbatim>\<open>
  for mitigation in rec_search_key("mitigation", results[hostname][module]):
      if mitigation is not None:
          results[hostname][module] = mitigation.copy()
  \<close>
  \<open>cur\<close> is the value of \<^verbatim>\<open>results[hostname][module]\<close>.
\<close>

fun mitigation_loop :: "pyval list \<Rightarrow> pyval \<Rightarrow> error + pyval" where
  "mitigation_loop [] cur = Inr cur"
| "mitigation_loop (mitigation # rest) cur =
     (if mitigation \<noteq> PNone
      then and_then (py_copy mitigation) (\<lambda>c. mitigation_loop rest c)
      else mitigation_loop rest cur)"

text \<open>
  The loop body for one module result \<open>v\<close>:
  \<^verbatim>\<open>
  raw = results[hostname][module].copy()
  if "mitigation" in raw:
      del raw["mitigation"]
  for mitigation in rec_search_key(...): ...
  results[hostname][module]["raw"] = raw
  \<close>
\<close>

definition split_module :: "pyval \<Rightarrow> error + pyval" where
  "split_module v =
     and_then (py_copy v) (\<lambda>raw0.
     and_then (py_in ''mitigation'' raw0) (\<lambda>found.
     and_then (if found then py_delitem raw0 ''mitigation'' else Inr raw0) (\<lambda>raw.
     and_then (mitigation_loop (rec_search_key ''mitigation'' v) v) (\<lambda>cur.
       py_setitem cur ''raw'' raw))))"

fun split_modules :: "pydict \<Rightarrow> error + pydict" where
  "split_modules [] = Inr []"
| "split_modules ((module, v) # rest) =
     and_then (split_module v) (\<lambda>v'.
     and_then (split_modules rest) (\<lambda>rest'. Inr ((module, v') # rest')))"

text \<open>
  \<^verbatim>\<open>for module in results[hostname]\<close> for one host record. An empty list or string is
  iterated without a round. A non-empty string raises when it is indexed by its first
  character; a non-empty list raises as well, since an element that indexes the list
  reaches an element, which has no \<^verbatim>\<open>copy\<close> unless it is no index itself.
\<close>

fun split_host :: "pyval \<Rightarrow> error + pyval" where
  "split_host (PDict d) = and_then (split_modules d) (\<lambda>d'. Inr (PDict d'))"
| "split_host (PList xs) = (if xs = [] then Inr (PList []) else Inl IllTyped)"
| "split_host (PStr s) = (if s = [] then Inr (PStr []) else Inl IllTyped)"
| "split_host PNone = Inl IllTyped"
| "split_host (PBool b) = Inl IllTyped"
| "split_host (PInt i) = Inl IllTyped"

fun split_results :: "pydict \<Rightarrow> error + pydict" where
  "split_results [] = Inr []"
| "split_results ((hostname, r) # rest) =
     and_then (split_host r) (\<lambda>r'.
     and_then (split_results rest) (\<lambda>rest'. Inr ((hostname, r') # rest')))"

section \<open>The two views\<close>

text \<open>
  A value in a view is a value copied from an \<^verbatim>\<open>"Entry"\<close> mapping (\<open>Finding\<close>), the
  text that \<^verbatim>\<open>pprint.pformat(v, indent=2)\<close> returns for a value \<open>v\<close> (\<open>Pformat v\<close>; the
  layout of the text is the standard library's and is not followed), or a list of
  hostnames (\<open>Hosts\<close>). An entry of a view is a plain dictionary or a
  \<^verbatim>\<open>requests.structures.CaseInsensitiveDict\<close>.
\<close>

datatype cell = Finding pyval | Pformat pyval | Hosts "string list"

datatype entry = Plain "(string \<times> cell) list" | CaseInsensitive "(string \<times> cell) list"

fun entry_items :: "entry \<Rightarrow> (string \<times> cell) list" where
  "entry_items (Plain d) = d"
| "entry_items (CaseInsensitive d) = d"

text \<open>
  \<^verbatim>\<open>CaseInsensitiveDict\<close> compares keys by \<^verbatim>\<open>key.lower()\<close>. Python's \<^verbatim>\<open>str.lower\<close>
  follows the case tables of Unicode, which are not part of the sources: in the
  functions below it is the parameter \<open>lower\<close>, and what is proved of them holds for
  every function on strings. \<open>ascii_lower\<close> is \<^verbatim>\<open>str.lower\<close> on strings of ASCII
  characters (it maps the letters A to Z to a to z); the scenarios, whose keys are
  ASCII, are evaluated with it.
\<close>

definition lower_char :: "char \<Rightarrow> char" where
  "lower_char c =
     (if 65 \<le> (of_char c :: nat) \<and> (of_char c :: nat) \<le> 90
      then char_of ((of_char c :: nat) + 32) else c)"

definition ascii_lower :: "string \<Rightarrow> string" where
  "ascii_lower s = map lower_char s"

text \<open>
  \<^verbatim>\<open>CaseInsensitiveDict.__setitem__\<close> stores \<^verbatim>\<open>(key, value)\<close> under \<^verbatim>\<open>key.lower()\<close>
  in an ordered dictionary: a key with the same \<^verbatim>\<open>lower()\<close> as a stored one takes its
  place, with the new spelling and the new value; another key goes to the end.
\<close>

fun ci_update :: "(string \<Rightarrow> string) \<Rightarrow> string \<Rightarrow> 'v \<Rightarrow> (string \<times> 'v) list \<Rightarrow> (string \<times> 'v) list" where
  "ci_update lower k v [] = [(k, v)]"
| "ci_update lower k v (p # ps) =
     (if lower (fst p) = lower k then (k, v) # ps else p # ci_update lower k v ps)"

definition ci_assign_all :: "(string \<Rightarrow> string) \<Rightarrow> (string \<times> cell) list \<Rightarrow> pydict \<Rightarrow> (string \<times> cell) list" where
  "ci_assign_all lower m d = fold (\<lambda>(k, v) acc. ci_update lower k (Finding v) acc) d m"

text \<open>
  \<^verbatim>\<open>CaseInsensitiveDict(data)\<close>: \<^verbatim>\<open>None\<close> gives the empty dictionary; otherwise
  \<^verbatim>\<open>MutableMapping.update\<close> assigns the items of a mapping, or of a sequence of pairs, one
  by one. A key that is not a string has no \<^verbatim>\<open>lower\<close>. A string is a sequence of its
  characters, which are no pairs.
\<close>

fun ci_assign_pairs ::
  "(string \<Rightarrow> string) \<Rightarrow> (string \<times> cell) list \<Rightarrow> (pyval \<times> pyval) list \<Rightarrow> error + (string \<times> cell) list" where
  "ci_assign_pairs lower m [] = Inr m"
| "ci_assign_pairs lower m ((PStr k, v) # ps) = ci_assign_pairs lower (ci_update lower k (Finding v) m) ps"
| "ci_assign_pairs lower m ((k, v) # ps) = Inl IllTyped"

fun case_insensitive_dict :: "(string \<Rightarrow> string) \<Rightarrow> pyval \<Rightarrow> error + (string \<times> cell) list" where
  "case_insensitive_dict lower PNone = Inr []"
| "case_insensitive_dict lower (PDict d) = Inr (ci_assign_all lower [] d)"
| "case_insensitive_dict lower (PList xs) =
     (case as_pairs xs of Inl e \<Rightarrow> Inl e | Inr ps \<Rightarrow> ci_assign_pairs lower [] ps)"
| "case_insensitive_dict lower (PStr s) = (if s = [] then Inr [] else Inl IllTyped)"
| "case_insensitive_dict lower (PBool b) = Inl IllTyped"
| "case_insensitive_dict lower (PInt i) = Inl IllTyped"

text \<open>\<^verbatim>\<open>e[k] = x\<close> on an entry of a view.\<close>

fun entry_setitem :: "(string \<Rightarrow> string) \<Rightarrow> entry \<Rightarrow> string \<Rightarrow> cell \<Rightarrow> entry" where
  "entry_setitem lower (Plain d) k x = Plain (AList.update k x d)"
| "entry_setitem lower (CaseInsensitive d) k x = CaseInsensitive (ci_update lower k x d)"

subsection \<open>The view grouped by module\<close>

text \<open>
  \<^verbatim>\<open>Report.__modules_report_formatter\<close> (lines 53 to 87). The body of the loop over the
  hosts, for one module:
  \<^verbatim>\<open>
  if module in results[hostname]:
      if "raw" in results[hostname][module]:
          raw_results[hostname] = results[hostname][module]["raw"].copy()
      if "Entry" in results[hostname][module]:
          out[module] = CaseInsensitiveDict(results[hostname][module]["Entry"])
      if hostname not in vuln_hosts:
          vuln_hosts.append(hostname)
  \<close>
  The state is \<^verbatim>\<open>out[module]\<close>, \<^verbatim>\<open>raw_results\<close> and \<^verbatim>\<open>vuln_hosts\<close>.
\<close>

definition module_host_step ::
  "(string \<Rightarrow> string) \<Rightarrow> string \<Rightarrow> string \<Rightarrow> pyval \<Rightarrow> entry \<times> pydict \<times> string list \<Rightarrow>
   error + (entry \<times> pydict \<times> string list)" where
  "module_host_step lower module hostname r st =
     (case st of (e, raw_results, vuln_hosts) \<Rightarrow>
     and_then (py_in module r) (\<lambda>present.
       if present then
         and_then (py_getitem r module) (\<lambda>v.
         and_then (py_in ''raw'' v) (\<lambda>has_raw.
         and_then
           (if has_raw then
              and_then (py_getitem v ''raw'') (\<lambda>x.
              and_then (py_copy x) (\<lambda>c. Inr (AList.update hostname c raw_results)))
            else Inr raw_results) (\<lambda>raw_results'.
         and_then (py_in ''Entry'' v) (\<lambda>has_entry.
         and_then
           (if has_entry then
              and_then (py_getitem v ''Entry'') (\<lambda>x.
              and_then (case_insensitive_dict lower x) (\<lambda>d. Inr (CaseInsensitive d)))
            else Inr e) (\<lambda>e'.
           Inr (e', raw_results',
                if hostname \<in> set vuln_hosts then vuln_hosts else vuln_hosts @ [hostname]))))))
       else Inr (e, raw_results, vuln_hosts)))"

fun module_hosts_loop ::
  "(string \<Rightarrow> string) \<Rightarrow> string \<Rightarrow> pydict \<Rightarrow> entry \<times> pydict \<times> string list \<Rightarrow>
   error + (entry \<times> pydict \<times> string list)" where
  "module_hosts_loop lower module [] st = Inr st"
| "module_hosts_loop lower module ((hostname, r) # rest) st =
     and_then (module_host_step lower module hostname r st) (\<lambda>st'.
       module_hosts_loop lower module rest st')"

text \<open>
  The body of the loop over the modules:
  \<^verbatim>\<open>
  vuln_hosts = []
  raw_results = {}
  if module not in out:
      out[module] = {}
  for hostname in results: ...
  if raw_results:
      out[module]["raw"] = pformat(raw_results.copy(), indent=2)
  if vuln_hosts:
      out[module]["hosts"] = vuln_hosts.copy()
  if not out[module]:
      del out[module]
  \<close>
\<close>

definition module_step ::
  "(string \<Rightarrow> string) \<Rightarrow> pydict \<Rightarrow> string \<Rightarrow> (string \<times> entry) list \<Rightarrow> error + (string \<times> entry) list" where
  "module_step lower results module out =
     (let out0 = (if map_of out module = None then AList.update module (Plain []) out else out);
          e0 = (case map_of out0 module of None \<Rightarrow> Plain [] | Some e \<Rightarrow> e)
      in and_then (module_hosts_loop lower module results (e0, [], [])) (\<lambda>(e, raw_results, vuln_hosts).
           let e1 = (if raw_results \<noteq> []
                     then entry_setitem lower e ''raw'' (Pformat (PDict raw_results)) else e);
               e2 = (if vuln_hosts \<noteq> []
                     then entry_setitem lower e1 ''hosts'' (Hosts vuln_hosts) else e1)
           in Inr (if entry_items e2 = [] then AList.delete module out0
                   else AList.update module e2 out0)))"

fun modules_loop ::
  "(string \<Rightarrow> string) \<Rightarrow> pydict \<Rightarrow> string list \<Rightarrow> (string \<times> entry) list \<Rightarrow> error + (string \<times> entry) list" where
  "modules_loop lower results [] out = Inr out"
| "modules_loop lower results (module # rest) out =
     and_then (module_step lower results module out) (\<lambda>out'. modules_loop lower results rest out')"

definition modules_report_formatter ::
  "(string \<Rightarrow> string) \<Rightarrow> pydict \<Rightarrow> string list \<Rightarrow> error + (string \<times> entry) list" where
  "modules_report_formatter lower results modules = modules_loop lower results modules []"

subsection \<open>The view grouped by host\<close>

text \<open>
  \<^verbatim>\<open>Report.__hosts_report_formatter\<close> (lines 89 to 115). The body of the loop over the
  modules of one host; \<open>acc\<close> is \<^verbatim>\<open>out[hostname]\<close>:
  \<^verbatim>\<open>
  raw_results = {}
  if "raw" in results[hostname][module]:
      raw_results = results[hostname][module]["raw"].copy()
  if "Entry" in results[hostname][module]:
      out[hostname][module] = CaseInsensitiveDict(results[hostname][module]["Entry"])
      if raw_results:
          out[hostname][module]["raw"] = pformat(raw_results.copy(), indent=2)
  \<close>
\<close>

definition host_module_step ::
  "(string \<Rightarrow> string) \<Rightarrow> string \<Rightarrow> pyval \<Rightarrow> (string \<times> entry) list \<Rightarrow> error + (string \<times> entry) list" where
  "host_module_step lower module v acc =
     and_then (py_in ''raw'' v) (\<lambda>has_raw.
     and_then
       (if has_raw then and_then (py_getitem v ''raw'') py_copy else Inr (PDict []))
       (\<lambda>raw_results.
     and_then (py_in ''Entry'' v) (\<lambda>has_entry.
       if has_entry then
         and_then (py_getitem v ''Entry'') (\<lambda>x.
         and_then (case_insensitive_dict lower x) (\<lambda>d.
           Inr (AList.update module
                  (if truthy raw_results
                   then entry_setitem lower (CaseInsensitive d) ''raw'' (Pformat raw_results)
                   else CaseInsensitive d) acc)))
       else Inr acc)))"

fun host_modules_loop ::
  "(string \<Rightarrow> string) \<Rightarrow> pydict \<Rightarrow> (string \<times> entry) list \<Rightarrow> error + (string \<times> entry) list" where
  "host_modules_loop lower [] acc = Inr acc"
| "host_modules_loop lower ((module, v) # rest) acc =
     and_then (host_module_step lower module v acc) (\<lambda>acc'. host_modules_loop lower rest acc')"

text \<open>
  \<^verbatim>\<open>for module in results[hostname]\<close> for one host record: the keys of a dictionary; no
  round for an empty list or string. A non-empty string raises when it is indexed by its
  first character, and a non-empty list raises too, since an element that indexes the
  list reaches an element, on which \<^verbatim>\<open>"raw" in\<close> fails unless it is no index itself.
\<close>

fun host_modules :: "(string \<Rightarrow> string) \<Rightarrow> pyval \<Rightarrow> (string \<times> entry) list \<Rightarrow> error + (string \<times> entry) list" where
  "host_modules lower (PDict d) acc = host_modules_loop lower d acc"
| "host_modules lower (PList xs) acc = (if xs = [] then Inr acc else Inl IllTyped)"
| "host_modules lower (PStr s) acc = (if s = [] then Inr acc else Inl IllTyped)"
| "host_modules lower PNone acc = Inl IllTyped"
| "host_modules lower (PBool b) acc = Inl IllTyped"
| "host_modules lower (PInt i) acc = Inl IllTyped"

text \<open>
  \<^verbatim>\<open>
  for hostname in results:
      if hostname not in out:
          out[hostname] = {}
      for module in results[hostname]: ...
  \<close>
\<close>

fun hosts_loop ::
  "(string \<Rightarrow> string) \<Rightarrow> pydict \<Rightarrow> (string \<times> (string \<times> entry) list) list \<Rightarrow>
   error + (string \<times> (string \<times> entry) list) list" where
  "hosts_loop lower [] out = Inr out"
| "hosts_loop lower ((hostname, r) # rest) out =
     (let out0 = (if map_of out hostname = None then AList.update hostname [] out else out);
          acc0 = (case map_of out0 hostname of None \<Rightarrow> [] | Some acc \<Rightarrow> acc)
      in and_then (host_modules lower r acc0) (\<lambda>acc.
           hosts_loop lower rest (AList.update hostname acc out0)))"

definition hosts_report_formatter ::
  "(string \<Rightarrow> string) \<Rightarrow> pydict \<Rightarrow> error + (string \<times> (string \<times> entry) list) list" where
  "hosts_report_formatter lower results = hosts_loop lower results []"

section \<open>The report\<close>

datatype Mode = HOSTS | MODULES

datatype view =
    Modules_view "(string \<times> entry) list"
  | Hosts_view "(string \<times> (string \<times> entry) list) list"

text \<open>
  \<^verbatim>\<open>Report.__jinja2__report\<close> chooses the formatter by the mode and hands the view to
  the template under the name \<^verbatim>\<open>results\<close>; the function below is that view. \<open>Mode\<close> has
  two values, so the branch that raises \<^verbatim>\<open>ValueError\<close> is not reached.
\<close>

definition jinja2_report :: "(string \<Rightarrow> string) \<Rightarrow> Mode \<Rightarrow> pydict \<Rightarrow> string list \<Rightarrow> error + view" where
  "jinja2_report lower mode results modules =
     (case mode of
        MODULES \<Rightarrow>
          and_then (modules_report_formatter lower results modules) (\<lambda>v. Inr (Modules_view v))
      | HOSTS \<Rightarrow>
          and_then (hosts_report_formatter lower results) (\<lambda>v. Inr (Hosts_view v)))"

text \<open>
  \<^verbatim>\<open>Report.run\<close>, lines 211 to 252, without the files it writes: extraction, pruning,
  compliance flattening, the split, and the view that is rendered, with
  \<^verbatim>\<open>modules=list(modules.keys())\<close>.
\<close>

definition run :: "(string \<Rightarrow> string) \<Rightarrow> Mode \<Rightarrow> pydict \<Rightarrow> error + view" where
  "run lower mode res =
     (case extract_results res of
        (res', Inl e) \<Rightarrow> Inl e
      | (res', Inr modules) \<Rightarrow>
          and_then (compliance_flatten (pruner res') modules) (\<lambda>(results, modules').
          and_then (split_results results) (\<lambda>results'.
            jinja2_report lower mode results' (map fst modules'))))"

section \<open>Notions used to state the properties\<close>

text \<open>The key occurs in the value at some depth, in a dictionary reached through
  dictionaries and lists.\<close>

fun has_key_deep :: "string \<Rightarrow> pyval \<Rightarrow> bool"
  and has_key_items :: "string \<Rightarrow> pydict \<Rightarrow> bool"
  and has_key_list :: "string \<Rightarrow> pyval list \<Rightarrow> bool" where
  "has_key_deep key (PDict d) = has_key_items key d"
| "has_key_deep key (PList xs) = has_key_list key xs"
| "has_key_deep key PNone = False"
| "has_key_deep key (PBool b) = False"
| "has_key_deep key (PInt i) = False"
| "has_key_deep key (PStr s) = False"
| "has_key_items key [] = False"
| "has_key_items key ((k, v) # rest) =
     (k = key \<or> has_key_deep key v \<or> has_key_items key rest)"
| "has_key_list key [] = False"
| "has_key_list key (x # xs) = (has_key_deep key x \<or> has_key_list key xs)"

text \<open>The names of the synthetic modules that the sheets of a compliance module give:
  one for each sheet that contains \<^verbatim>\<open>"mitigation"\<close>.\<close>

definition synthetic_modules :: "string \<Rightarrow> pydict \<Rightarrow> string list" where
  "synthetic_modules module sheets =
     map (\<lambda>(sheet, content). module @ ''_'' @ sheet)
       (filter (\<lambda>(sheet, content). py_in ''mitigation'' content = Inr True) sheets)"

text \<open>The host record does not give the module an \<^verbatim>\<open>"Entry"\<close>: it has not the module, or
  the module's result has not the key.\<close>

definition no_entry :: "string \<Rightarrow> pyval \<Rightarrow> bool" where
  "no_entry module r =
     (py_in module r = Inr False \<or>
      (case py_getitem r module of
         Inl e \<Rightarrow> False
       | Inr v \<Rightarrow> py_in ''Entry'' v = Inr False))"

subsection \<open>Trees of the scenarios\<close>

text \<open>One host, one module, a mitigation with the field \<^verbatim>\<open>risk\<close> beside another key:
  \<^verbatim>\<open>{"h1": {"loaded_modules": {"m1": {}},
          "results": {"m1": {"mitigation": {"risk": "high"}, "other": 1}}}}\<close>\<close>

definition tree_risk :: pydict where
  "tree_risk =
     [(''h1'', PDict
        [(''loaded_modules'', PDict [(''m1'', PDict [])]),
         (''results'', PDict
            [(''m1'', PDict
               [(''mitigation'', PDict [(''risk'', PStr ''high'')]),
                (''other'', PInt 1)])])])]"

text \<open>The same tree with the field inside an \<^verbatim>\<open>"Entry"\<close> mapping of the mitigation.\<close>

definition tree_risk_entry :: pydict where
  "tree_risk_entry =
     [(''h1'', PDict
        [(''loaded_modules'', PDict [(''m1'', PDict [])]),
         (''results'', PDict
            [(''m1'', PDict
               [(''mitigation'', PDict [(''Entry'', PDict [(''risk'', PStr ''high'')])]),
                (''other'', PInt 1)])])])]"

text \<open>A host that declares the compliance module \<^verbatim>\<open>compare_one\<close> and has results of
  another module only.\<close>

definition tree_compliance_absent :: pydict where
  "tree_compliance_absent =
     [(''h1'', PDict
        [(''loaded_modules'', PDict [(''compare_one'', PDict []), (''m1'', PDict [])]),
         (''results'', PDict
            [(''m1'', PDict
               [(''mitigation'', PDict [(''Entry'', PDict [(''a'', PStr ''b'')])])])])])]"

text \<open>The compliance module \<^verbatim>\<open>compare_one\<close> with a sheet that has a mitigation and one
  that has none.\<close>

definition tree_two_sheets :: pydict where
  "tree_two_sheets =
     [(''h1'', PDict
        [(''loaded_modules'', PDict [(''compare_one'', PDict [])]),
         (''results'', PDict
            [(''compare_one'', PDict
               [(''s1'', PDict [(''mitigation'', PDict [(''x'', PInt 1)])]),
                (''s2'', PDict [(''no_mitigation_here'', PInt 2)])])])])]"

text \<open>Two hosts that declare the module \<^verbatim>\<open>m1\<close> with different metadata.\<close>

definition tree_two_declarations :: pydict where
  "tree_two_declarations =
     [(''h1'', PDict
        [(''loaded_modules'', PDict [(''m1'', PStr ''first'')]), (''results'', PDict [])]),
      (''h2'', PDict
        [(''loaded_modules'', PDict [(''m1'', PStr ''second'')]), (''results'', PDict [])])]"

text \<open>A host with \<^verbatim>\<open>"loaded_modules"\<close> and without \<^verbatim>\<open>"results"\<close>, after a well-formed one.\<close>

definition tree_no_results :: pydict where
  "tree_no_results =
     [(''h1'', PDict
        [(''loaded_modules'', PDict [(''m1'', PDict [])]),
         (''results'', PDict [(''m1'', PDict [(''other'', PInt 1)])])]),
      (''h2'', PDict
        [(''loaded_modules'', PDict [(''m2'', PDict [])]),
         (''scan'', PDict [(''m2'', PDict [(''other'', PInt 2)])])])]"

text \<open>Trees as the formatters receive them, after the split. Two hosts whose mitigations
  for the module \<^verbatim>\<open>m\<close> have different fields:\<close>

definition results_two_entries :: pydict where
  "results_two_entries =
     [(''h1'', PDict [(''m'', PDict [(''Entry'', PDict [(''a'', PInt 1)]), (''raw'', PDict [])])]),
      (''h2'', PDict [(''m'', PDict [(''Entry'', PDict [(''b'', PInt 2)]), (''raw'', PDict [])])])]"

text \<open>A module result that is the empty dictionary, and a tree whose only mitigation has
  no \<^verbatim>\<open>"Entry"\<close> and no sibling key:\<close>

definition results_empty_module :: pydict where
  "results_empty_module = [(''h1'', PDict [(''m1'', PDict [])])]"

definition tree_bare_mitigation :: pydict where
  "tree_bare_mitigation =
     [(''h1'', PDict
        [(''loaded_modules'', PDict [(''m1'', PDict [])]),
         (''results'', PDict [(''m1'', PDict [(''mitigation'', PDict [(''foo'', PInt 1)])])])])]"

text \<open>A host with a module that has a mitigation entry and one that has raw output
  only, and a host without any entry:\<close>

definition results_hosts :: pydict where
  "results_hosts =
     [(''h1'', PDict
        [(''m1'', PDict [(''Entry'', PDict [(''a'', PInt 1)]), (''raw'', PDict [(''x'', PInt 1)])]),
         (''m2'', PDict [(''other'', PInt 2), (''raw'', PDict [(''other'', PInt 2)])])]),
      (''h2'', PDict
        [(''m2'', PDict [(''other'', PInt 3), (''raw'', PDict [(''other'', PInt 3)])])])]"

text \<open>A module result without a mitigation:\<close>

definition results_no_mitigation :: pydict where
  "results_no_mitigation = [(''h1'', PDict [(''m1'', PDict [(''other'', PInt 1)])])]"

text \<open>
  The shape of a host record in the data model of the specification (section 3, with
  the envelope that extraction unwraps). The record is a mapping. Either it has no
  \<^verbatim>\<open>"loaded_modules"\<close>: then its keys are module identifiers. Or \<^verbatim>\<open>"loaded_modules"\<close>
  is a mapping (from module identifiers to metadata) and \<^verbatim>\<open>"results"\<close> is a mapping from
  module identifiers to results. \<^verbatim>\<open>"loaded_modules"\<close> is a reserved key and no module
  identifier.
\<close>

fun is_mapping :: "pyval \<Rightarrow> bool" where
  "is_mapping (PDict d) = True"
| "is_mapping PNone = False"
| "is_mapping (PBool b) = False"
| "is_mapping (PInt i) = False"
| "is_mapping (PStr s) = False"
| "is_mapping (PList xs) = False"

definition host_record :: "pyval \<Rightarrow> bool" where
  "host_record r =
     (case r of
        PDict d \<Rightarrow>
          (case map_of d ''loaded_modules'' of
             None \<Rightarrow> True
           | Some lm \<Rightarrow>
               is_mapping lm \<and>
               (case map_of d ''results'' of
                  None \<Rightarrow> False
                | Some v \<Rightarrow> is_mapping v \<and> py_in ''loaded_modules'' v = Inr False))
      | _ \<Rightarrow> False)"

definition results_tree :: "pydict \<Rightarrow> bool" where
  "results_tree res = list_all (\<lambda>(hostname, r). host_record r) res"


text \<open>Three hosts with the module \<^verbatim>\<open>m\<close>: the first two have an \<^verbatim>\<open>"Entry"\<close>, with
  different fields, and the second \<^verbatim>\<open>"Entry"\<close> has two keys that differ by case only;
  the third has raw output only.\<close>

definition hosts_before :: pydict where
  "hosts_before =
     [(''h1'', PDict [(''m'', PDict [(''Entry'', PDict [(''a'', PInt 1)]), (''raw'', PDict [])])])]"

definition host_with_entry :: pyval where
  "host_with_entry =
     PDict [(''m'', PDict [(''Entry'', PDict [(''Foo'', PInt 1), (''foo'', PInt 2)]),
                           (''raw'', PDict [(''x'', PInt 1)])])]"

definition hosts_after :: pydict where
  "hosts_after = [(''h3'', PDict [(''m'', PDict [(''raw'', PDict [])])])]"

text \<open>The results of the tree with the two sheets, as extraction and pruning leave
  them.\<close>

definition results_two_sheets :: pydict where
  "results_two_sheets =
     [(''h1'', PDict
        [(''compare_one'', PDict
           [(''s1'', PDict [(''mitigation'', PDict [(''x'', PInt 1)])]),
            (''s2'', PDict [(''no_mitigation_here'', PInt 2)])])])]"

subsection \<open>Notions of the views\<close>

text \<open>Some host record of the results contains the module.\<close>

definition hosted :: "pydict \<Rightarrow> string \<Rightarrow> bool" where
  "hosted results module = (\<exists>(hostname, r) \<in> set results. py_in module r = Inr True)"

text \<open>The entry has a non-empty list of hosts under \<^verbatim>\<open>"hosts"\<close>.\<close>

definition with_hosts :: "entry \<Rightarrow> bool" where
  "with_hosts e = (\<exists>hs. hs \<noteq> [] \<and> (''hosts'', Hosts hs) \<in> set (entry_items e))"

text \<open>The hosts whose record contains the module, in the order of the tree.\<close>

definition hosts_with :: "string \<Rightarrow> pydict \<Rightarrow> string list" where
  "hosts_with module results =
     map fst (filter (\<lambda>(hostname, r). py_in module r = Inr True) results)"

text \<open>The raw output of the module: for each host whose result of the module has the
  key \<^verbatim>\<open>"raw"\<close>, the hostname with the value under that key, in the order of the tree.\<close>

fun host_raw :: "string \<Rightarrow> string \<times> pyval \<Rightarrow> pydict" where
  "host_raw module (hostname, r) =
     (case py_getitem r module of
        Inl e \<Rightarrow> []
      | Inr v \<Rightarrow> (case py_getitem v ''raw'' of Inl e \<Rightarrow> [] | Inr c \<Rightarrow> [(hostname, c)]))"

definition raw_payloads :: "string \<Rightarrow> pydict \<Rightarrow> pydict" where
  "raw_payloads module results = concat (map (host_raw module) results)"

text \<open>The entry of a module that has an \<^verbatim>\<open>"Entry"\<close>: the case-insensitive dictionary
  \<open>d\<close> on which \<^verbatim>\<open>"raw"\<close>, if there is raw output, and then \<^verbatim>\<open>"hosts"\<close> are
  assigned.\<close>

definition aggregate :: "(string \<Rightarrow> string) \<Rightarrow> (string \<times> cell) list \<Rightarrow> pydict \<Rightarrow> string list \<Rightarrow> entry" where
  "aggregate lower d raws hs =
     CaseInsensitive
       (ci_update lower ''hosts'' (Hosts hs)
          (if raws \<noteq> [] then ci_update lower ''raw'' (Pformat (PDict raws)) d else d))"

text \<open>The sheets that a host record has under the compliance module: the value under
  the module when it is a dictionary, and none otherwise.\<close>

definition host_sheets :: "string \<Rightarrow> pyval \<Rightarrow> pydict" where
  "host_sheets module r =
     (case r of
        PDict d \<Rightarrow> (case map_of d module of Some (PDict sheets) \<Rightarrow> sheets | _ \<Rightarrow> [])
      | _ \<Rightarrow> [])"

subsection \<open>What the scenarios give\<close>

text \<open>The catalogue of the tree with the two sheets, and what flattening leaves.\<close>

definition catalogue_two_sheets :: pydict where
  "catalogue_two_sheets = [(''compare_one'', PDict [])]"

definition flattened_two_sheets :: pydict where
  "flattened_two_sheets =
     [(''h1'', PDict [(''compare_one_s1'', PDict [(''mitigation'', PDict [(''x'', PInt 1)])])])]"

definition catalogue_flattened :: pydict where
  "catalogue_flattened = [(''compare_one_s1'', PStr [])]"

text \<open>The module result without a mitigation after the split.\<close>

definition split_no_mitigation :: pydict where
  "split_no_mitigation =
     [(''h1'', PDict
        [(''m1'', PDict [(''other'', PInt 1), (''raw'', PDict [(''other'', PInt 1)])])])]"

text \<open>The views of \<open>results_hosts\<close> by module, for the modules \<^verbatim>\<open>m1\<close>, \<^verbatim>\<open>m2\<close> and
  \<^verbatim>\<open>m3\<close>, and by host, and the view by module of the three hosts with the module \<^verbatim>\<open>m\<close>.\<close>

definition view_by_module :: "(string \<times> entry) list" where
  "view_by_module =
     [(''m1'', CaseInsensitive
         [(''a'', Finding (PInt 1)),
          (''raw'', Pformat (PDict [(''h1'', PDict [(''x'', PInt 1)])])),
          (''hosts'', Hosts [''h1''])]),
      (''m2'', Plain
         [(''raw'', Pformat (PDict [(''h1'', PDict [(''other'', PInt 2)]),
                                    (''h2'', PDict [(''other'', PInt 3)])])),
          (''hosts'', Hosts [''h1'', ''h2''])])]"

definition view_by_host :: "(string \<times> (string \<times> entry) list) list" where
  "view_by_host =
     [(''h1'',
       [(''m1'', CaseInsensitive
           [(''a'', Finding (PInt 1)), (''raw'', Pformat (PDict [(''x'', PInt 1)]))])]),
      (''h2'', [])]"

definition view_last_entry :: "(string \<times> entry) list" where
  "view_last_entry =
     [(''m'', CaseInsensitive
         [(''foo'', Finding (PInt 2)),
          (''raw'', Pformat (PDict [(''h1'', PDict []), (''h2'', PDict [(''x'', PInt 1)]),
                                    (''h3'', PDict [])])),
          (''hosts'', Hosts [''h1'', ''h2'', ''h3''])])]"

section \<open>General facts\<close>

lemma and_then_Inr_iff:
  "and_then x f = Inr y \<longleftrightarrow> (\<exists>a. x = Inr a \<and> f a = Inr y)"
  by (cases x) auto

lemma update_absent:
  "map_of al k = None \<Longrightarrow> AList.update k v al = al @ [(k, v)]"
  by (induction al) (auto split: if_splits)

lemma update_last:
  "map_of al k = None \<Longrightarrow> AList.update k v (al @ [(k, w)]) = al @ [(k, v)]"
  by (induction al) (auto split: if_splits)

section \<open>Properties of result extraction\<close>

lemma map_of_assign_all:
  "distinct (map fst d) \<Longrightarrow> map_of (assign_all m d) = map_of m ++ map_of d"
proof (induction d arbitrary: m)
  case Nil
  then show ?case by (simp add: assign_all_def)
next
  case (Cons p d)
  obtain k v where p: "p = (k, v)" by (cases p)
  from Cons.prems p have notin: "map_of d k = None" and dist: "distinct (map fst d)"
    by (auto simp: map_of_eq_None_iff)
  have "map_of (assign_all m (p # d)) = map_of (assign_all (AList.update k v m) d)"
    by (simp add: assign_all_def p)
  also have "\<dots> = map_of (AList.update k v m) ++ map_of d"
    by (rule Cons.IH [OF dist])
  also have "\<dots> = map_of m ++ map_of (p # d)"
    using notin by (auto simp: p update_conv' map_add_def fun_eq_iff split: option.splits)
  finally show ?case .
qed

lemma extract_host_unchanged:
  "py_in ''loaded_modules'' r = Inr False \<Longrightarrow> extract_host r modules = (r, Inr modules)"
  by (simp add: extract_host_def)

text \<open>When the body of the loop ends without an exception, either the record had no
  envelope and nothing changed, or the record was a dictionary, its
  \<^verbatim>\<open>"loaded_modules"\<close> went into the catalogue and its \<^verbatim>\<open>"results"\<close> took its place.\<close>

lemma extract_host_Inr:
  assumes "extract_host r modules = (r', Inr modules')"
  shows "(py_in ''loaded_modules'' r = Inr False \<and> r' = r \<and> modules' = modules) \<or>
         (\<exists>d lmv c. r = PDict d \<and> map_of d ''loaded_modules'' = Some lmv \<and>
            py_copy lmv = Inr c \<and> dict_update modules c = Inr modules' \<and>
            map_of d ''results'' = Some r')"
proof (cases r)
  case (PDict d)
  show ?thesis
  proof (cases "map_of d ''loaded_modules''")
    case None
    with assms PDict show ?thesis by (auto simp: extract_host_def)
  next
    case (Some lmv)
    with assms PDict show ?thesis
      by (auto simp: extract_host_def delete_conv' split: sum.splits option.splits if_splits)
  qed
qed (use assms in \<open>auto simp: extract_host_def split: sum.splits bool.splits if_splits\<close>)

lemma extract_loop_unchanged:
  "\<forall>(h, r) \<in> set res. py_in ''loaded_modules'' r = Inr False \<Longrightarrow>
   extract_loop res modules = (res, Inr modules)"
  by (induction res arbitrary: modules) (auto simp: extract_host_unchanged)

lemma host_record_extract:
  assumes "host_record r"
  shows "\<exists>r' modules'. extract_host r modules = (r', Inr modules') \<and>
           py_in ''loaded_modules'' r' = Inr False"
proof -
  from assms obtain d where r: "r = PDict d"
    by (cases r) (auto simp: host_record_def)
  show ?thesis
  proof (cases "map_of d ''loaded_modules''")
    case None
    then show ?thesis by (simp add: r extract_host_def)
  next
    case (Some lm)
    with assms r obtain x v m where
      lm: "lm = PDict x" and v: "map_of d ''results'' = Some v" "v = PDict m"
        "map_of m ''loaded_modules'' = None"
      by (cases lm; cases "map_of d ''results''"; cases "the (map_of d ''results'')")
         (auto simp: host_record_def)
    with Some show ?thesis
      by (simp add: r extract_host_def delete_conv')
  qed
qed

lemma results_tree_extract:
  "results_tree res \<Longrightarrow>
   \<exists>res' modules'. extract_loop res modules = (res', Inr modules') \<and>
     (\<forall>(hostname, r) \<in> set res'. py_in ''loaded_modules'' r = Inr False)"
proof (induction res arbitrary: modules)
  case Nil
  then show ?case by simp
next
  case (Cons p res)
  obtain h r where p: "p = (h, r)" by (cases p)
  from Cons.prems have hr: "host_record r" and rest: "results_tree res"
    by (simp_all add: results_tree_def p)
  from host_record_extract [OF hr] obtain r1 m1 where
    s1: "extract_host r modules = (r1, Inr m1)" "py_in ''loaded_modules'' r1 = Inr False"
    by blast
  from Cons.IH [OF rest] obtain rest' m2 where
    s2: "extract_loop res m1 = (rest', Inr m2)"
      "\<forall>(hostname, r) \<in> set rest'. py_in ''loaded_modules'' r = Inr False"
    by blast
  from s1 s2 show ?case by (simp add: p)
qed

lemma extract_loop_append:
  "extract_loop pre modules = (pre', Inr modules') \<Longrightarrow>
   extract_loop (pre @ rest) modules =
     (pre' @ fst (extract_loop rest modules'), snd (extract_loop rest modules'))"
proof (induction pre arbitrary: modules pre')
  case Nil
  then show ?case by simp
next
  case (Cons p pre)
  obtain h r where p: "p = (h, r)" by (cases p)
  from Cons.prems obtain r1 m1 pre1 where
    h1: "extract_host r modules = (r1, Inr m1)" and
    h2: "extract_loop pre m1 = (pre1, Inr modules')" and
    h3: "pre' = (h, r1) # pre1"
    by (auto simp: p split: prod.splits sum.splits)
  show ?case using Cons.IH [OF h2] h1 h3 by (simp add: p split: prod.splits)
qed

lemma extract_host_no_results:
  assumes "map_of r ''loaded_modules'' = Some (PDict lm)" and "map_of r ''results'' = None"
  shows "extract_host (PDict r) modules =
           (PDict (AList.delete ''loaded_modules'' r), Inl (KeyError ''results''))"
  using assms by (simp add: extract_host_def delete_conv')

text \<open>
  Claim C6, as the code has it. When a host's \<^verbatim>\<open>"loaded_modules"\<close> mapping is merged
  into the catalogue, the catalogue gains the identifiers it had not, and an identifier
  that it had already takes the metadata of this later host: the merge is
  \<^verbatim>\<open>dict.update\<close>, where the later value replaces the earlier one on a key collision.
  Identifiers that the host does not declare keep their metadata.
\<close>

theorem C6_merge_later_host_wins:
  assumes "extract_host (PDict r) modules = (r', Inr modules')"
    and "map_of r ''loaded_modules'' = Some (PDict lm)"
    and "distinct (map fst lm)"
  shows "map_of modules' = map_of modules ++ map_of lm"
  using extract_host_Inr [OF assms(1)] assms(2,3)
  by (auto simp: map_of_assign_all)

text \<open>The theorem at a host that declares \<^verbatim>\<open>m1\<close> again, with a catalogue that has
  \<^verbatim>\<open>m1\<close> and \<^verbatim>\<open>m0\<close>.\<close>

theorem C6_merge_later_host_wins_witness:
  "extract_host
     (PDict [(''loaded_modules'', PDict [(''m1'', PStr ''second'')]), (''results'', PDict [])])
     [(''m1'', PStr ''first''), (''m0'', PStr ''zero'')]
     = (PDict [], Inr [(''m1'', PStr ''second''), (''m0'', PStr ''zero'')]) \<and>
   map_of [(''loaded_modules'', PDict [(''m1'', PStr ''second'')]), (''results'', PDict [])]
     ''loaded_modules'' = Some (PDict [(''m1'', PStr ''second'')]) \<and>
   distinct (map fst [(''m1'', PStr ''second'')]) \<and>
   map_of [(''m1'', PStr ''second''), (''m0'', PStr ''zero'')]
     = map_of [(''m1'', PStr ''first''), (''m0'', PStr ''zero'')]
         ++ map_of [(''m1'', PStr ''second'')]"
proof -
  have h1: "extract_host
     (PDict [(''loaded_modules'', PDict [(''m1'', PStr ''second'')]), (''results'', PDict [])])
     [(''m1'', PStr ''first''), (''m0'', PStr ''zero'')]
     = (PDict [], Inr [(''m1'', PStr ''second''), (''m0'', PStr ''zero'')])"
    by code_simp
  have h2: "map_of [(''loaded_modules'', PDict [(''m1'', PStr ''second'')]), (''results'', PDict [])]
     ''loaded_modules'' = Some (PDict [(''m1'', PStr ''second'')])"
    by simp
  have h3: "distinct (map fst [(''m1'', PStr ''second'')])"
    by simp
  from C6_merge_later_host_wins [OF h1 h2 h3] h1 h2 h3 show ?thesis
    by blast
qed

text \<open>Against claim C6 as it is written: two hosts declare \<^verbatim>\<open>m1\<close>, and after
  extraction the catalogue does not hold the metadata of the first.\<close>

theorem C6_counterexample:
  "\<not> (\<exists>modules. snd (extract_results tree_two_declarations) = Inr modules \<and>
        map_of modules ''m1'' = Some (PStr ''first''))"
proof -
  have "extract_results tree_two_declarations =
          ([(''h1'', PDict []), (''h2'', PDict [])], Inr [(''m1'', PStr ''second'')])"
    by code_simp
  then show ?thesis by simp
qed

text \<open>
  Claim C7. On every results tree (every host record has the shape of the data model),
  extraction ends without an exception; afterwards no host record contains the key
  \<^verbatim>\<open>"loaded_modules"\<close>, and extraction of the tree it leaves changes nothing and returns
  an empty catalogue.
\<close>

theorem C7_extraction_idempotent:
  assumes "results_tree res"
  shows "\<exists>res' modules. extract_results res = (res', Inr modules) \<and>
           (\<forall>(hostname, r) \<in> set res'. py_in ''loaded_modules'' r = Inr False) \<and>
           extract_results res' = (res', Inr [])"
proof -
  from results_tree_extract [OF assms, of "[]"] obtain res' modules where
    e: "extract_loop res [] = (res', Inr modules)" and
    f: "\<forall>(hostname, r) \<in> set res'. py_in ''loaded_modules'' r = Inr False"
    by blast
  from f have "extract_loop res' [] = (res', Inr [])"
    by (rule extract_loop_unchanged)
  with e f show ?thesis
    by (auto simp: extract_results_def)
qed

text \<open>The theorem at the tree of the scenario with one host and one module; the first
  extraction returns the catalogue with \<^verbatim>\<open>m1\<close>, the second an empty one.\<close>

theorem C7_extraction_idempotent_witness:
  "results_tree tree_risk \<and>
   (\<exists>res' modules. extract_results tree_risk = (res', Inr modules) \<and>
      (\<forall>(hostname, r) \<in> set res'. py_in ''loaded_modules'' r = Inr False) \<and>
      extract_results res' = (res', Inr [])) \<and>
   extract_results tree_risk =
     ([(''h1'', PDict [(''m1'', PDict [(''mitigation'', PDict [(''risk'', PStr ''high'')]),
                                       (''other'', PInt 1)])])],
      Inr [(''m1'', PDict [])]) \<and>
   extract_results
     [(''h1'', PDict [(''m1'', PDict [(''mitigation'', PDict [(''risk'', PStr ''high'')]),
                                      (''other'', PInt 1)])])]
     = ([(''h1'', PDict [(''m1'', PDict [(''mitigation'', PDict [(''risk'', PStr ''high'')]),
                                         (''other'', PInt 1)])])],
        Inr [])"
proof -
  have h1: "results_tree tree_risk"
    by (simp add: results_tree_def host_record_def tree_risk_def)
  note c = C7_extraction_idempotent [OF h1]
  have e1: "extract_results tree_risk =
     ([(''h1'', PDict [(''m1'', PDict [(''mitigation'', PDict [(''risk'', PStr ''high'')]),
                                       (''other'', PInt 1)])])],
      Inr [(''m1'', PDict [])])"
    by code_simp
  have e2: "extract_results
     [(''h1'', PDict [(''m1'', PDict [(''mitigation'', PDict [(''risk'', PStr ''high'')]),
                                      (''other'', PInt 1)])])]
     = ([(''h1'', PDict [(''m1'', PDict [(''mitigation'', PDict [(''risk'', PStr ''high'')]),
                                         (''other'', PInt 1)])])],
        Inr [])"
    by code_simp
  show ?thesis
    by (intro conjI) (rule h1, rule c, rule e1, rule e2)
qed

text \<open>
  Claim C9. A host record that is a dictionary with \<^verbatim>\<open>"loaded_modules"\<close> (a mapping)
  and without \<^verbatim>\<open>"results"\<close> makes extraction raise \<^verbatim>\<open>KeyError\<close> for \<^verbatim>\<open>"results"\<close>,
  when the hosts before it were extracted without an exception. The host is not skipped:
  at that moment its record has lost \<^verbatim>\<open>"loaded_modules"\<close> already, the hosts before it
  are unwrapped and the hosts after it are untouched.
\<close>

theorem C9_missing_results_raises:
  assumes "extract_results pre = (pre', Inr modules)"
    and "map_of r ''loaded_modules'' = Some (PDict lm)"
    and "map_of r ''results'' = None"
  shows "extract_results (pre @ (hostname, PDict r) # post) =
           (pre' @ (hostname, PDict (AList.delete ''loaded_modules'' r)) # post,
            Inl (KeyError ''results''))"
  using assms(1) extract_host_no_results [OF assms(2,3)]
  by (simp add: extract_results_def extract_loop_append)

theorem C9_missing_results_raises_witness:
  "extract_results
     [(''h1'', PDict [(''loaded_modules'', PDict [(''m1'', PDict [])]),
                      (''results'', PDict [(''m1'', PDict [(''other'', PInt 1)])])])]
     = ([(''h1'', PDict [(''m1'', PDict [(''other'', PInt 1)])])], Inr [(''m1'', PDict [])]) \<and>
   map_of [(''loaded_modules'', PDict [(''m2'', PDict [])]),
           (''scan'', PDict [(''m2'', PDict [(''other'', PInt 2)])])] ''loaded_modules''
     = Some (PDict [(''m2'', PDict [])]) \<and>
   map_of [(''loaded_modules'', PDict [(''m2'', PDict [])]),
           (''scan'', PDict [(''m2'', PDict [(''other'', PInt 2)])])] ''results'' = None \<and>
   extract_results tree_no_results =
     ([(''h1'', PDict [(''m1'', PDict [(''other'', PInt 1)])]),
       (''h2'', PDict [(''scan'', PDict [(''m2'', PDict [(''other'', PInt 2)])])])],
      Inl (KeyError ''results''))"
proof -
  have h1: "extract_results
     [(''h1'', PDict [(''loaded_modules'', PDict [(''m1'', PDict [])]),
                      (''results'', PDict [(''m1'', PDict [(''other'', PInt 1)])])])]
     = ([(''h1'', PDict [(''m1'', PDict [(''other'', PInt 1)])])], Inr [(''m1'', PDict [])])"
    by code_simp
  have h2: "map_of [(''loaded_modules'', PDict [(''m2'', PDict [])]),
           (''scan'', PDict [(''m2'', PDict [(''other'', PInt 2)])])] ''loaded_modules''
     = Some (PDict [(''m2'', PDict [])])"
    by simp
  have h3: "map_of [(''loaded_modules'', PDict [(''m2'', PDict [])]),
           (''scan'', PDict [(''m2'', PDict [(''other'', PInt 2)])])] ''results'' = None"
    by simp
  from C9_missing_results_raises [OF h1 h2 h3, of "''h2''" "[]"] h1 h2 h3 show ?thesis
    by (simp add: tree_no_results_def AList.delete_eq)
qed

section \<open>Properties of compliance flattening\<close>

lemma synthetic_modules_Cons:
  "synthetic_modules c ((s, content) # rest) =
     (if py_in ''mitigation'' content = Inr True then [c @ ''_'' @ s] else [])
     @ synthetic_modules c rest"
  by (simp add: synthetic_modules_def)

lemma synthetic_modules_Nil: "synthetic_modules c [] = []"
  by (simp add: synthetic_modules_def)

lemma synthetic_modules_fresh: "c \<notin> set (synthetic_modules c sheets)"
  by (auto simp: synthetic_modules_def)

lemma synthetic_modules_distinct:
  "distinct (map fst sheets) \<Longrightarrow> distinct (synthetic_modules c sheets)"
proof (induction sheets)
  case Nil
  then show ?case by (simp add: synthetic_modules_Nil)
next
  case (Cons p sheets)
  obtain s content where p: "p = (s, content)" by (cases p)
  from Cons.prems have "s \<notin> fst ` set sheets" and d: "distinct (map fst sheets)"
    by (auto simp: p)
  then have "c @ ''_'' @ s \<notin> set (synthetic_modules c sheets)"
    by (auto simp: synthetic_modules_def image_iff)
  with Cons.IH [OF d] show ?case
    by (simp add: p synthetic_modules_Cons)
qed

lemma sheet_loop_Inr:
  "sheet_loop c sheets (PDict d) modules = Inr (r', modules') \<Longrightarrow>
   \<exists>d'. r' = PDict d' \<and>
     fst ` set d' = fst ` set d \<union> set (synthetic_modules c sheets) \<and>
     fst ` set modules' = fst ` set modules \<union> set (synthetic_modules c sheets)"
proof (induction sheets arbitrary: d modules)
  case Nil
  then show ?case by (auto simp: synthetic_modules_Nil)
next
  case (Cons p sheets)
  obtain s content where p: "p = (s, content)" by (cases p)
  from Cons.prems obtain found where f: "py_in ''mitigation'' content = Inr found"
    by (auto simp: p and_then_Inr_iff)
  show ?case
  proof (cases found)
    case True
    with Cons.prems f have
      "sheet_loop c sheets (PDict (AList.update (c @ ''_'' @ s) content d))
         (AList.update (c @ ''_'' @ s) (PStr []) modules) = Inr (r', modules')"
      by (simp add: p)
    from Cons.IH [OF this] f True show ?thesis
      by (auto simp: p synthetic_modules_Cons dom_update)
  next
    case False
    with Cons.prems f have "sheet_loop c sheets (PDict d) modules = Inr (r', modules')"
      by (simp add: p)
    from Cons.IH [OF this] f False show ?thesis
      by (auto simp: p synthetic_modules_Cons)
  qed
qed

lemma flatten_host_Inr:
  assumes "flatten_host c r modules = Inr (r', modules')"
  shows "\<exists>d d'. r = PDict d \<and> r' = PDict d' \<and> map_of d' c = None \<and>
           fst ` set d' = (fst ` set d - {c}) \<union> set (synthetic_modules c (host_sheets c r)) \<and>
           fst ` set modules' = fst ` set modules \<union> set (synthetic_modules c (host_sheets c r))"
proof -
  from assms obtain d where r: "r = PDict d"
    by (cases r) (auto simp: flatten_host_def)
  define x where "x = (case map_of d c of None \<Rightarrow> PNone | Some v \<Rightarrow> v)"
  have gx: "py_get r c = Inr x"
    by (simp add: r x_def)
  from assms obtain r1 where
    s1: "(if truthy x then
            (case x of PDict sheets \<Rightarrow> sheet_loop c sheets r modules
             | _ \<Rightarrow> Inl IllTyped)
          else Inr (r, modules)) = Inr (r1, modules')" and
    s2: "py_delitem r1 c = Inr r'"
    unfolding flatten_host_def gx by (auto simp: and_then_Inr_iff)
  have "\<exists>d1. r1 = PDict d1 \<and>
     fst ` set d1 = fst ` set d \<union> set (synthetic_modules c (host_sheets c r)) \<and>
     fst ` set modules' = fst ` set modules \<union> set (synthetic_modules c (host_sheets c r))"
  proof (cases "truthy x")
    case True
    with s1 obtain sheets where sh: "x = PDict sheets"
      by (cases x) auto
    then have hs: "host_sheets c r = sheets"
      by (auto simp: host_sheets_def r x_def split: option.splits)
    from s1 True sh have "sheet_loop c sheets (PDict d) modules = Inr (r1, modules')"
      by (simp add: r)
    from sheet_loop_Inr [OF this] hs show ?thesis by simp
  next
    case False
    then have "host_sheets c r = []"
      by (cases x) (auto simp: host_sheets_def r x_def split: option.splits pyval.splits)
    with s1 False show ?thesis
      by (auto simp: synthetic_modules_Nil r)
  qed
  then obtain d1 where d1: "r1 = PDict d1"
     "fst ` set d1 = fst ` set d \<union> set (synthetic_modules c (host_sheets c r))"
     "fst ` set modules' = fst ` set modules \<union> set (synthetic_modules c (host_sheets c r))"
    by (elim exE conjE) (rule that; assumption)
  from s2 d1(1) have r': "r' = PDict (AList.delete c d1)"
    by (auto split: if_splits)
  have "fst ` set (AList.delete c d1) = fst ` set d1 - {c}"
    by (auto simp: AList.delete_eq image_iff)
  with d1(2) have "fst ` set (AList.delete c d1) =
      (fst ` set d - {c}) \<union> set (synthetic_modules c (host_sheets c r))"
    using synthetic_modules_fresh [of c "host_sheets c r"] by auto
  with r r' d1(3) show ?thesis
    by (auto simp: delete_conv')
qed

lemma flatten_loop_Inr:
  "flatten_loop c results modules = Inr (results', modules') \<Longrightarrow>
   (\<forall>(h, r') \<in> set results'. py_in c r' = Inr False) \<and>
   fst ` set modules' =
     fst ` set modules \<union> (\<Union>(h, r) \<in> set results. set (synthetic_modules c (host_sheets c r))) \<and>
   (\<forall>h r. map_of results h = Some r \<longrightarrow>
      (\<exists>d d'. r = PDict d \<and> map_of results' h = Some (PDict d') \<and>
         fst ` set d' = (fst ` set d - {c}) \<union> set (synthetic_modules c (host_sheets c r))))"
proof (induction results arbitrary: modules results')
  case Nil
  then show ?case by simp
next
  case (Cons p results)
  obtain h r where p: "p = (h, r)" by (cases p)
  from Cons.prems obtain r1 m1 rest' where
    s1: "flatten_host c r modules = Inr (r1, m1)" and
    s2: "flatten_loop c results m1 = Inr (rest', modules')" and
    s3: "results' = (h, r1) # rest'"
    by (auto simp: p and_then_Inr_iff)
  from flatten_host_Inr [OF s1] obtain d d1 where
    h1: "r = PDict d" "r1 = PDict d1" "map_of d1 c = None"
      "fst ` set d1 = (fst ` set d - {c}) \<union> set (synthetic_modules c (host_sheets c r))"
      "fst ` set m1 = fst ` set modules \<union> set (synthetic_modules c (host_sheets c r))"
    by (elim exE conjE) (rule that; assumption)
  note ih = Cons.IH [OF s2]
  note i1 = ih [THEN conjunct1]
  note i2 = ih [THEN conjunct2, THEN conjunct1]
  note i3 = ih [THEN conjunct2, THEN conjunct2]
  have "py_in c r1 = Inr False"
    using h1(2,3) by simp
  with i1 have c1: "\<forall>(h, r') \<in> set results'. py_in c r' = Inr False"
    by (simp add: s3)
  have c2: "fst ` set modules' =
     fst ` set modules \<union> (\<Union>(h, r) \<in> set (p # results). set (synthetic_modules c (host_sheets c r)))"
    unfolding i2 h1(5) by (simp add: p Un_assoc)
  have c3: "\<forall>h' r'. map_of (p # results) h' = Some r' \<longrightarrow>
      (\<exists>d d'. r' = PDict d \<and> map_of results' h' = Some (PDict d') \<and>
         fst ` set d' = (fst ` set d - {c}) \<union> set (synthetic_modules c (host_sheets c r')))"
  proof (intro allI impI)
    fix h' r' assume look: "map_of (p # results) h' = Some r'"
    show "\<exists>d d'. r' = PDict d \<and> map_of results' h' = Some (PDict d') \<and>
         fst ` set d' = (fst ` set d - {c}) \<union> set (synthetic_modules c (host_sheets c r'))"
    proof (cases "h' = h")
      case True
      with look have "r' = r" by (simp add: p)
      with True h1(1,2,4) show ?thesis by (simp add: s3)
    next
      case False
      with look have "map_of results h' = Some r'" by (simp add: p)
      with i3 False show ?thesis by (simp add: s3)
    qed
  qed
  show ?case by (intro conjI c1 c2 c3)
qed

text \<open>
  Claim C8. When the catalogue declares a compliance module \<open>c\<close> (\<^verbatim>\<open>compare_one\<close> if
  it is there, \<^verbatim>\<open>compare_many\<close> otherwise) and flattening ends without an exception,
  \<open>c\<close> is afterwards neither in the catalogue nor in any host record. The catalogue
  has gained, and each host record has in place of \<open>c\<close>, exactly the synthetic
  modules of the sheets that contain \<^verbatim>\<open>"mitigation"\<close>, named by \<open>c\<close>, an underscore and
  the sheet. For a host whose sheets have distinct names, as the keys of a dictionary
  have, these are as many modules as there are sheets with a mitigation.
\<close>

theorem C8_flattening_synthetic_modules:
  assumes "compliance_flatten results modules = Inr (results', modules')"
    and "map_of modules ''compare_one'' \<noteq> None \<or> map_of modules ''compare_many'' \<noteq> None"
    and "c = compliance_module modules"
  shows "map_of modules' c = None \<and>
     (\<forall>(hostname, r') \<in> set results'. py_in c r' = Inr False) \<and>
     fst ` set modules' =
       (fst ` set modules - {c}) \<union>
       (\<Union>(hostname, r) \<in> set results. set (synthetic_modules c (host_sheets c r))) \<and>
     (\<forall>hostname r. map_of results hostname = Some r \<longrightarrow>
        (\<exists>d d'. r = PDict d \<and> map_of results' hostname = Some (PDict d') \<and>
           fst ` set d' = (fst ` set d - {c}) \<union> set (synthetic_modules c (host_sheets c r)))) \<and>
     (\<forall>hostname r. map_of results hostname = Some r \<and>
          distinct (map fst (host_sheets c r)) \<longrightarrow>
        card (set (synthetic_modules c (host_sheets c r))) =
        length (filter (\<lambda>(sheet, content). py_in ''mitigation'' content = Inr True)
                  (host_sheets c r)))"
proof -
  from assms obtain m1 where
    s1: "flatten_loop c results modules = Inr (results', m1)" and
    s2: "modules' = AList.delete c m1"
    by (auto simp: compliance_flatten_def and_then_Inr_iff split: if_splits)
  note fl = flatten_loop_Inr [OF s1]
  note i1 = fl [THEN conjunct1]
  note i2 = fl [THEN conjunct2, THEN conjunct1]
  note i3 = fl [THEN conjunct2, THEN conjunct2]
  have k1: "map_of modules' c = None"
    by (simp add: s2 delete_conv')
  have "fst ` set modules' = fst ` set m1 - {c}"
    by (auto simp: s2 AList.delete_eq image_iff)
  with i2 have k3: "fst ` set modules' =
       (fst ` set modules - {c}) \<union>
       (\<Union>(hostname, r) \<in> set results. set (synthetic_modules c (host_sheets c r)))"
    using synthetic_modules_fresh [of c] by auto
  have k5: "\<forall>hostname r. map_of results hostname = Some r \<and>
          distinct (map fst (host_sheets c r)) \<longrightarrow>
        card (set (synthetic_modules c (host_sheets c r))) =
        length (filter (\<lambda>(sheet, content). py_in ''mitigation'' content = Inr True)
                  (host_sheets c r))"
  proof (intro allI impI)
    fix hostname r
    assume "map_of results hostname = Some r \<and> distinct (map fst (host_sheets c r))"
    then have "distinct (synthetic_modules c (host_sheets c r))"
      by (simp add: synthetic_modules_distinct)
    then have "card (set (synthetic_modules c (host_sheets c r))) =
                 length (synthetic_modules c (host_sheets c r))"
      by (rule distinct_card)
    then show "card (set (synthetic_modules c (host_sheets c r))) =
        length (filter (\<lambda>(sheet, content). py_in ''mitigation'' content = Inr True)
                  (host_sheets c r))"
      by (simp add: synthetic_modules_def)
  qed
  show ?thesis
    by (intro conjI k1 i1 k3 i3 k5)
qed

text \<open>The theorem at the compliance module \<^verbatim>\<open>compare_one\<close> with the sheet \<^verbatim>\<open>s1\<close>, which
  has a mitigation, and the sheet \<^verbatim>\<open>s2\<close>, which has none: flattening returns, with
  \<^verbatim>\<open>compare_one_s1\<close> alone.\<close>

theorem C8_flattening_synthetic_modules_witness:
  "compliance_flatten results_two_sheets catalogue_two_sheets =
     Inr (flattened_two_sheets, catalogue_flattened) \<and>
   map_of catalogue_two_sheets ''compare_one'' \<noteq> None \<and>
   ''compare_one'' = compliance_module catalogue_two_sheets \<and>
   map_of catalogue_flattened ''compare_one'' = None \<and>
   py_in ''compare_one''
     (PDict [(''compare_one_s1'', PDict [(''mitigation'', PDict [(''x'', PInt 1)])])]) = Inr False \<and>
   fst ` set catalogue_flattened =
       (fst ` set catalogue_two_sheets - {''compare_one''}) \<union>
       (\<Union>(hostname, r) \<in> set results_two_sheets.
          set (synthetic_modules ''compare_one'' (host_sheets ''compare_one'' r))) \<and>
   (\<exists>d d'. PDict [(''compare_one'', PDict
                      [(''s1'', PDict [(''mitigation'', PDict [(''x'', PInt 1)])]),
                       (''s2'', PDict [(''no_mitigation_here'', PInt 2)])])] = PDict d \<and>
      map_of flattened_two_sheets ''h1'' = Some (PDict d') \<and>
      fst ` set d' =
        (fst ` set d - {''compare_one''}) \<union>
        set (synthetic_modules ''compare_one''
               (host_sheets ''compare_one''
                  (PDict [(''compare_one'', PDict
                      [(''s1'', PDict [(''mitigation'', PDict [(''x'', PInt 1)])]),
                       (''s2'', PDict [(''no_mitigation_here'', PInt 2)])])])))) \<and>
   card (set (synthetic_modules ''compare_one''
                (host_sheets ''compare_one''
                   (PDict [(''compare_one'', PDict
                      [(''s1'', PDict [(''mitigation'', PDict [(''x'', PInt 1)])]),
                       (''s2'', PDict [(''no_mitigation_here'', PInt 2)])])])))) =
     length (filter (\<lambda>(sheet, content). py_in ''mitigation'' content = Inr True)
               (host_sheets ''compare_one''
                  (PDict [(''compare_one'', PDict
                      [(''s1'', PDict [(''mitigation'', PDict [(''x'', PInt 1)])]),
                       (''s2'', PDict [(''no_mitigation_here'', PInt 2)])])])))"
proof -
  have h1: "compliance_flatten results_two_sheets catalogue_two_sheets =
     Inr (flattened_two_sheets, catalogue_flattened)"
    by code_simp
  have h2': "map_of catalogue_two_sheets ''compare_one'' \<noteq> None"
    by (simp add: catalogue_two_sheets_def)
  then have h2: "map_of catalogue_two_sheets ''compare_one'' \<noteq> None \<or>
    map_of catalogue_two_sheets ''compare_many'' \<noteq> None"
    by (rule disjI1)
  have h3: "''compare_one'' = compliance_module catalogue_two_sheets"
    by (simp add: compliance_module_def catalogue_two_sheets_def)
  note t = C8_flattening_synthetic_modules [OF h1 h2 h3]
  have mem: "(''h1'', PDict [(''compare_one_s1'', PDict [(''mitigation'', PDict [(''x'', PInt 1)])])])
               \<in> set flattened_two_sheets"
    by (simp add: flattened_two_sheets_def)
  have look: "map_of results_two_sheets ''h1'' =
      Some (PDict [(''compare_one'', PDict
                      [(''s1'', PDict [(''mitigation'', PDict [(''x'', PInt 1)])]),
                       (''s2'', PDict [(''no_mitigation_here'', PInt 2)])])])"
    by (simp add: results_two_sheets_def)
  have dist: "distinct (map fst (host_sheets ''compare_one''
                  (PDict [(''compare_one'', PDict
                      [(''s1'', PDict [(''mitigation'', PDict [(''x'', PInt 1)])]),
                       (''s2'', PDict [(''no_mitigation_here'', PInt 2)])])])))"
    by (simp add: host_sheets_def)
  note c1 = t [THEN conjunct1]
  note c2 = bspec [OF t [THEN conjunct2, THEN conjunct1] mem, unfolded prod.case]
  note c3 = t [THEN conjunct2, THEN conjunct2, THEN conjunct1]
  note c4 = t [THEN conjunct2, THEN conjunct2, THEN conjunct2, THEN conjunct1,
               rule_format, OF look]
  note c5 = t [THEN conjunct2, THEN conjunct2, THEN conjunct2, THEN conjunct2,
               rule_format, OF conjI [OF look dist]]
  show ?thesis
    by (intro conjI) (rule h1, rule h2', rule h3, rule c1, rule c2, rule c3, rule c4, rule c5)
qed

section \<open>Properties of the split\<close>

lemma rec_search_none:
  "\<not> has_key_deep key v \<Longrightarrow> set (rec_search_key key v) \<subseteq> {PNone}"
  "\<not> has_key_items key d \<Longrightarrow> set (rec_search_items key d) \<subseteq> {PNone}"
  "\<not> has_key_list key xs \<Longrightarrow> set (rec_search_list key xs) \<subseteq> {PNone}"
  by (induction key v and key d and key xs
      rule: rec_search_key_rec_search_items_rec_search_list.induct) auto

lemma mitigation_loop_none:
  "set ms \<subseteq> {PNone} \<Longrightarrow> mitigation_loop ms cur = Inr cur"
  by (induction ms arbitrary: cur) auto

lemma has_key_items_top:
  "\<not> has_key_items key d \<Longrightarrow> map_of d key = None"
  by (induction d) auto

lemma split_module_no_mitigation:
  assumes "\<not> has_key_deep ''mitigation'' (PDict d)"
  shows "split_module (PDict d) = Inr (PDict (AList.update ''raw'' (PDict d) d))"
proof -
  from assms have top: "map_of d ''mitigation'' = None"
    by (simp add: has_key_items_top)
  from assms have "set (rec_search_key ''mitigation'' (PDict d)) \<subseteq> {PNone}"
    by (rule rec_search_none)
  then have "mitigation_loop (rec_search_key ''mitigation'' (PDict d)) (PDict d) = Inr (PDict d)"
    by (rule mitigation_loop_none)
  with top show ?thesis
    by (simp add: split_module_def)
qed

lemma split_modules_lookup:
  "split_modules d = Inr d' \<Longrightarrow> map_of d module = Some v \<Longrightarrow>
   \<exists>v'. split_module v = Inr v' \<and> map_of d' module = Some v'"
proof (induction d arbitrary: d')
  case Nil
  then show ?case by simp
next
  case (Cons p d)
  obtain k x where p: "p = (k, x)" by (cases p)
  from Cons.prems(1) obtain x' rest' where
    h1: "split_module x = Inr x'" and h2: "split_modules d = Inr rest'" and
    h3: "d' = (k, x') # rest'"
    by (auto simp: p and_then_Inr_iff)
  show ?case
  proof (cases "k = module")
    case True
    with Cons.prems(2) h1 h3 show ?thesis by (simp add: p)
  next
    case False
    with Cons.prems(2) have "map_of d module = Some v" by (simp add: p)
    from Cons.IH [OF h2 this] False h3 show ?thesis by simp
  qed
qed

lemma split_results_lookup:
  "split_results results = Inr results' \<Longrightarrow> map_of results hostname = Some r \<Longrightarrow>
   \<exists>r'. split_host r = Inr r' \<and> map_of results' hostname = Some r'"
proof (induction results arbitrary: results')
  case Nil
  then show ?case by simp
next
  case (Cons p results)
  obtain k x where p: "p = (k, x)" by (cases p)
  from Cons.prems(1) obtain x' rest' where
    h1: "split_host x = Inr x'" and h2: "split_results results = Inr rest'" and
    h3: "results' = (k, x') # rest'"
    by (auto simp: p and_then_Inr_iff)
  show ?case
  proof (cases "k = hostname")
    case True
    with Cons.prems(2) h1 h3 show ?thesis by (simp add: p)
  next
    case False
    with Cons.prems(2) have "map_of results hostname = Some r" by (simp add: p)
    from Cons.IH [OF h2 this] False h3 show ?thesis by simp
  qed
qed

text \<open>
  Claim C3, as the code has it. When the split ends without an exception, a module
  result that is a dictionary without the key \<^verbatim>\<open>"mitigation"\<close> at any depth is not
  replaced: it keeps all its keys and values and has in addition, under \<^verbatim>\<open>"raw"\<close>,
  the copy of itself that was taken before (an earlier value under \<^verbatim>\<open>"raw"\<close> is
  overwritten by it).
\<close>

theorem C3_split_without_mitigation_keeps_keys:
  assumes "split_results results = Inr results'"
    and "map_of results hostname = Some (PDict r)"
    and "map_of r module = Some (PDict d)"
    and "\<not> has_key_deep ''mitigation'' (PDict d)"
  shows "\<exists>r'. map_of results' hostname = Some (PDict r') \<and>
           map_of r' module = Some (PDict (AList.update ''raw'' (PDict d) d))"
proof -
  from split_results_lookup [OF assms(1,2)] obtain x where
    x: "split_host (PDict r) = Inr x" "map_of results' hostname = Some x"
    by blast
  from x(1) obtain r' where r': "split_modules r = Inr r'" "x = PDict r'"
    by (auto simp: and_then_Inr_iff)
  from split_modules_lookup [OF r'(1) assms(3)] split_module_no_mitigation [OF assms(4)]
  have "map_of r' module = Some (PDict (AList.update ''raw'' (PDict d) d))"
    by auto
  with x(2) r'(2) show ?thesis by simp
qed

text \<open>The theorem at the module result \<^verbatim>\<open>{"other": 1}\<close>: after the split it is
  \<^verbatim>\<open>{"other": 1, "raw": {"other": 1}}\<close>.\<close>

theorem C3_split_without_mitigation_keeps_keys_witness:
  "split_results results_no_mitigation = Inr split_no_mitigation \<and>
   map_of results_no_mitigation ''h1'' = Some (PDict [(''m1'', PDict [(''other'', PInt 1)])]) \<and>
   map_of [(''m1'', PDict [(''other'', PInt 1)])] ''m1'' = Some (PDict [(''other'', PInt 1)]) \<and>
   \<not> has_key_deep ''mitigation'' (PDict [(''other'', PInt 1)]) \<and>
   (\<exists>r'. map_of split_no_mitigation ''h1'' = Some (PDict r') \<and>
           map_of r' ''m1'' = Some (PDict (AList.update ''raw'' (PDict [(''other'', PInt 1)]) [(''other'', PInt 1)])))"
proof -
  have h1: "split_results results_no_mitigation = Inr split_no_mitigation"
    by code_simp
  have h2: "map_of results_no_mitigation ''h1'' = Some (PDict [(''m1'', PDict [(''other'', PInt 1)])])"
    by (simp add: results_no_mitigation_def)
  have h3: "map_of [(''m1'', PDict [(''other'', PInt 1)])] ''m1'' = Some (PDict [(''other'', PInt 1)])"
    by simp
  have h4: "\<not> has_key_deep ''mitigation'' (PDict [(''other'', PInt 1)])"
    by simp
  show ?thesis
    by (rule conjI [OF h1 conjI [OF h2 conjI [OF h3 conjI [OF h4 C3_split_without_mitigation_keeps_keys [OF h1 h2 h3 h4]]]]])
qed

text \<open>Against claim C3 as it is written: the module result \<^verbatim>\<open>{"other": 1}\<close> has no
  mitigation, and after the split it is not a dictionary with the key \<^verbatim>\<open>"raw"\<close>
  alone.\<close>

theorem C3_counterexample:
  "\<not> (\<exists>raw. split_results results_no_mitigation =
          Inr [(''h1'', PDict [(''m1'', PDict [(''raw'', raw)])])])"
proof -
  have "split_results results_no_mitigation =
     Inr [(''h1'', PDict [(''m1'', PDict [(''other'', PInt 1),
                                          (''raw'', PDict [(''other'', PInt 1)])])])]"
    by code_simp
  then show ?thesis by simp
qed

section \<open>Properties of the view grouped by module\<close>

lemma module_host_step_Inr:
  assumes "module_host_step lower module hostname r (e, raws, hs) = Inr (e', raws', hs')"
  shows "(py_in module r = Inr False \<and> e' = e \<and> raws' = raws \<and> hs' = hs) \<or>
         (py_in module r = Inr True \<and> hs' \<noteq> [])"
  using assms
  by (auto simp: module_host_step_def and_then_Inr_iff split: if_splits)

lemma module_hosts_loop_Inr:
  "module_hosts_loop lower module results (e, raws, hs) = Inr (e', raws', hs') \<Longrightarrow>
   (hosted results module \<longrightarrow> hs' \<noteq> []) \<and>
   (\<not> hosted results module \<longrightarrow> e' = e \<and> raws' = raws \<and> hs' = hs)"
proof (induction results arbitrary: e raws hs)
  case Nil
  then show ?case by (simp add: hosted_def)
next
  case (Cons p results)
  obtain h r where p: "p = (h, r)" by (cases p)
  from Cons.prems obtain e1 raws1 hs1 where
    s1: "module_host_step lower module h r (e, raws, hs) = Inr (e1, raws1, hs1)" and
    s2: "module_hosts_loop lower module results (e1, raws1, hs1) = Inr (e', raws', hs')"
    by (auto simp: p and_then_Inr_iff)
  have keep: "hs1 \<noteq> [] \<Longrightarrow> hs' \<noteq> []"
    using s2
  proof (induction results arbitrary: e1 raws1 hs1)
    case Nil
    then show ?case by simp
  next
    case (Cons q results)
    obtain h2 r2 where q: "q = (h2, r2)" by (cases q)
    from Cons.prems(2) obtain e2 raws2 hs2 where
      t1: "module_host_step lower module h2 r2 (e1, raws1, hs1) = Inr (e2, raws2, hs2)" and
      t2: "module_hosts_loop lower module results (e2, raws2, hs2) = Inr (e', raws', hs')"
      by (auto simp: q and_then_Inr_iff)
    from module_host_step_Inr [OF t1] Cons.prems(1) have "hs2 \<noteq> []" by auto
    from Cons.IH [OF this t2] show ?case .
  qed
  from module_host_step_Inr [OF s1] Cons.IH [OF s2] keep show ?case
    by (auto simp: hosted_def p)
qed

lemma entry_setitem_mem: "(k, x) \<in> set (entry_items (entry_setitem lower e k x))"
proof (cases e)
  case (Plain d)
  have "(k, x) \<in> set (AList.update k x d)" by (induction d) auto
  with Plain show ?thesis by simp
next
  case (CaseInsensitive d)
  have "(k, x) \<in> set (ci_update lower k x d)" by (induction d) auto
  with CaseInsensitive show ?thesis by simp
qed

lemma module_step_Inr:
  assumes "module_step lower results module out = Inr out'"
    and "\<forall>k e. map_of out k = Some e \<longrightarrow> with_hosts e"
    and "distinct (map fst out)"
  shows "distinct (map fst out') \<and>
         (if hosted results module
          then \<exists>e. with_hosts e \<and> map_of out' = (map_of out)(module \<mapsto> e)
          else map_of out' = map_of out)"
proof -
  define out0 where "out0 = (if map_of out module = None then AList.update module (Plain []) out else out)"
  define e0 where "e0 = (case map_of out0 module of None \<Rightarrow> Plain [] | Some e \<Rightarrow> e)"
  from assms(1) obtain e raws hs where
    loop: "module_hosts_loop lower module results (e0, [], []) = Inr (e, raws, hs)" and
    out': "out' =
       (let e1 = (if raws \<noteq> [] then entry_setitem lower e ''raw'' (Pformat (PDict raws)) else e);
            e2 = (if hs \<noteq> [] then entry_setitem lower e1 ''hosts'' (Hosts hs) else e1)
        in if entry_items e2 = [] then AList.delete module out0 else AList.update module e2 out0)"
    by (auto simp: module_step_def and_then_Inr_iff out0_def e0_def Let_def)
  have d0: "distinct (map fst out0)"
    using assms(3) by (simp add: out0_def distinct_update)
  have m0: "map_of out0 module = Some e0"
    by (auto simp: out0_def e0_def update_conv')
  have dist: "distinct (map fst out')"
    using d0 by (simp add: out' Let_def distinct_update distinct_delete)
  show ?thesis
  proof (cases "hosted results module")
    case True
    with module_hosts_loop_Inr [OF loop] have hs: "hs \<noteq> []" by simp
    define e1 where "e1 = (if raws \<noteq> [] then entry_setitem lower e ''raw'' (Pformat (PDict raws)) else e)"
    define e2 where "e2 = entry_setitem lower e1 ''hosts'' (Hosts hs)"
    have mem: "(''hosts'', Hosts hs) \<in> set (entry_items e2)"
      unfolding e2_def by (rule entry_setitem_mem)
    then have ne: "entry_items e2 \<noteq> []" by auto
    have "out' = AList.update module e2 out0"
      using hs ne by (simp add: out' Let_def e1_def e2_def)
    then have "map_of out' = (map_of out)(module \<mapsto> e2)"
      by (auto simp: update_conv' out0_def)
    moreover have "with_hosts e2"
      using mem hs by (auto simp: with_hosts_def)
    ultimately show ?thesis using True dist by auto
  next
    case False
    with module_hosts_loop_Inr [OF loop] have same: "e = e0" "raws = []" "hs = []" by simp_all
    have "map_of out' = map_of out"
    proof (cases "map_of out module")
      case None
      then have "e0 = Plain []" using m0 by (simp add: out0_def update_conv')
      then have "out' = AList.delete module out0"
        by (simp add: out' same Let_def)
      then show ?thesis
        using None by (auto simp: delete_conv' out0_def update_conv')
    next
      case (Some x)
      then have x: "out0 = out" "e0 = x" using m0 by (simp_all add: out0_def)
      from assms(2) Some have "with_hosts x" by blast
      then have "entry_items x \<noteq> []" by (auto simp: with_hosts_def)
      then have "out' = AList.update module x out"
        by (simp add: out' same Let_def x)
      then show ?thesis
        using Some by (auto simp: update_conv')
    qed
    with False dist show ?thesis by simp
  qed
qed

lemma modules_loop_Inr:
  "modules_loop lower results modules out = Inr out' \<Longrightarrow>
   \<forall>k e. map_of out k = Some e \<longrightarrow> with_hosts e \<Longrightarrow>
   distinct (map fst out) \<Longrightarrow>
   distinct (map fst out') \<and>
   (\<forall>k e. map_of out' k = Some e \<longrightarrow> with_hosts e) \<and>
   (\<forall>k. map_of out' k \<noteq> None \<longleftrightarrow>
        map_of out k \<noteq> None \<or> (k \<in> set modules \<and> hosted results k))"
proof (induction modules arbitrary: out)
  case Nil
  then show ?case by simp
next
  case (Cons module modules)
  from Cons.prems(1) obtain out1 where
    s1: "module_step lower results module out = Inr out1" and
    s2: "modules_loop lower results modules out1 = Inr out'"
    by (auto simp: and_then_Inr_iff)
  from module_step_Inr [OF s1 Cons.prems(2,3)] have
    d1: "distinct (map fst out1)" and
    m1: "if hosted results module
          then \<exists>e. with_hosts e \<and> map_of out1 = (map_of out)(module \<mapsto> e)
          else map_of out1 = map_of out"
    by simp_all
  have inv1: "\<forall>k e. map_of out1 k = Some e \<longrightarrow> with_hosts e"
    using m1 Cons.prems(2) by (auto split: if_splits)
  have dom1: "\<forall>k. map_of out1 k \<noteq> None \<longleftrightarrow>
        map_of out k \<noteq> None \<or> (k = module \<and> hosted results k)"
    using m1 by (auto split: if_splits)
  from Cons.IH [OF s2 inv1 d1] dom1 show ?case
    by auto
qed

text \<open>
  Claim C4, as the code has it. When the module-grouped formatter ends without an
  exception, a module identifier is in the view exactly when it is one of the requested
  modules and some host record contains it, and every entry of the view has a
  non-empty list under \<^verbatim>\<open>"hosts"\<close>. So an entry is dropped exactly when no host has the
  module, and an entry that has nothing but its list of hosts is kept.
\<close>

theorem C4_view_keeps_hosted_modules:
  assumes "modules_report_formatter lower results modules = Inr out"
  shows "(\<forall>module. module \<in> fst ` set out \<longleftrightarrow>
            module \<in> set modules \<and>
            (\<exists>(hostname, r) \<in> set results. py_in module r = Inr True)) \<and>
         (\<forall>(module, e) \<in> set out.
            \<exists>hs. hs \<noteq> [] \<and> (''hosts'', Hosts hs) \<in> set (entry_items e))"
proof -
  have "modules_loop lower results modules [] = Inr out"
    using assms by (simp add: modules_report_formatter_def)
  from modules_loop_Inr [OF this] have
    d: "distinct (map fst out)" and
    inv: "\<forall>k e. map_of out k = Some e \<longrightarrow> with_hosts e" and
    dom: "\<forall>k. map_of out k \<noteq> None \<longleftrightarrow> k \<in> set modules \<and> hosted results k"
    by auto
  have "\<forall>module. module \<in> fst ` set out \<longleftrightarrow>
            module \<in> set modules \<and>
            (\<exists>(hostname, r) \<in> set results. py_in module r = Inr True)"
  proof
    fix module
    have "module \<in> fst ` set out \<longleftrightarrow> map_of out module \<noteq> None"
      by (simp add: map_of_eq_None_iff)
    with dom show "module \<in> fst ` set out \<longleftrightarrow>
            module \<in> set modules \<and>
            (\<exists>(hostname, r) \<in> set results. py_in module r = Inr True)"
      by (simp add: hosted_def)
  qed
  moreover have "\<forall>(module, e) \<in> set out.
            \<exists>hs. hs \<noteq> [] \<and> (''hosts'', Hosts hs) \<in> set (entry_items e)"
    using inv d by (auto simp: with_hosts_def)
  ultimately show ?thesis by blast
qed

text \<open>The theorem at two hosts and the modules \<^verbatim>\<open>m1\<close>, \<^verbatim>\<open>m2\<close> and \<^verbatim>\<open>m3\<close>, of which
  no host has \<^verbatim>\<open>m3\<close>; the entry of \<^verbatim>\<open>m2\<close> has its list of hosts.\<close>

theorem C4_view_keeps_hosted_modules_witness:
  "modules_report_formatter ascii_lower results_hosts [''m1'', ''m2'', ''m3''] = Inr view_by_module \<and>
   (\<forall>module. module \<in> fst ` set view_by_module \<longleftrightarrow>
            module \<in> set [''m1'', ''m2'', ''m3''] \<and>
            (\<exists>(hostname, r) \<in> set results_hosts. py_in module r = Inr True)) \<and>
   (\<exists>hs. hs \<noteq> [] \<and>
      (''hosts'', Hosts hs) \<in> set (entry_items (Plain
         [(''raw'', Pformat (PDict [(''h1'', PDict [(''other'', PInt 2)]),
                                    (''h2'', PDict [(''other'', PInt 3)])])),
          (''hosts'', Hosts [''h1'', ''h2''])])))"
proof -
  have h1: "modules_report_formatter ascii_lower results_hosts [''m1'', ''m2'', ''m3''] = Inr view_by_module"
    by code_simp
  note t = C4_view_keeps_hosted_modules [OF h1]
  have mem: "(''m2'', Plain
         [(''raw'', Pformat (PDict [(''h1'', PDict [(''other'', PInt 2)]),
                                    (''h2'', PDict [(''other'', PInt 3)])])),
          (''hosts'', Hosts [''h1'', ''h2''])]) \<in> set view_by_module"
    by (simp add: view_by_module_def)
  note c1 = t [THEN conjunct1]
  note c2 = bspec [OF t [THEN conjunct2] mem, unfolded prod.case]
  show ?thesis
    by (intro conjI) (rule h1, rule c1, rule c2)
qed

text \<open>Against claim C4 as it is written. A host has the module \<^verbatim>\<open>m1\<close> with an empty
  result: the entry of \<^verbatim>\<open>m1\<close> in the view has its list of hosts and nothing else, and it
  is not dropped. And in a whole run on a tree whose mitigation has no \<^verbatim>\<open>"Entry"\<close> and
  no sibling key, the entry of \<^verbatim>\<open>m1\<close> has no finding, and its raw text is the text of
  a collection in which the raw output of the only host is empty.\<close>

theorem C4_counterexample:
  "\<not> (\<forall>out. modules_report_formatter ascii_lower results_empty_module [''m1''] = Inr out \<longrightarrow>
          (\<forall>(module, e) \<in> set out. map fst (entry_items e) \<noteq> [''hosts''])) \<and>
   run ascii_lower MODULES tree_bare_mitigation =
     Inr (Modules_view
       [(''m1'', Plain [(''raw'', Pformat (PDict [(''h1'', PDict [])])),
                        (''hosts'', Hosts [''h1''])])])"
proof -
  have e1: "modules_report_formatter ascii_lower results_empty_module [''m1''] =
              Inr [(''m1'', Plain [(''hosts'', Hosts [''h1''])])]"
    by code_simp
  have e2: "run ascii_lower MODULES tree_bare_mitigation =
     Inr (Modules_view
       [(''m1'', Plain [(''raw'', Pformat (PDict [(''h1'', PDict [])])),
                        (''hosts'', Hosts [''h1''])])])"
    by code_simp
  show ?thesis using e1 e2 by simp
qed

lemma ci_update_keys:
  "set (map (lower \<circ> fst) (ci_update lower k v al)) = insert (lower k) (set (map (lower \<circ> fst) al))"
  by (induction al) auto

lemma ci_update_distinct:
  "distinct (map (lower \<circ> fst) al) \<Longrightarrow> distinct (map (lower \<circ> fst) (ci_update lower k v al))"
proof (induction al)
  case Nil
  then show ?case by simp
next
  case (Cons p al)
  show ?case
  proof (cases "lower (fst p) = lower k")
    case True
    with Cons.prems show ?thesis by simp
  next
    case False
    from Cons.prems have "lower (fst p) \<notin> set (map (lower \<circ> fst) al)" by simp
    with False have "lower (fst p) \<notin> set (map (lower \<circ> fst) (ci_update lower k v al))"
      unfolding ci_update_keys by simp
    with Cons False show ?thesis by simp
  qed
qed

lemma ci_assign_all_distinct:
  "distinct (map (lower \<circ> fst) m) \<Longrightarrow> distinct (map (lower \<circ> fst) (ci_assign_all lower m d))"
proof (induction d arbitrary: m)
  case Nil
  then show ?case by (simp add: ci_assign_all_def)
next
  case (Cons p d)
  obtain k v where p: "p = (k, v)" by (cases p)
  have "ci_assign_all lower m (p # d) = ci_assign_all lower (ci_update lower k (Finding v) m) d"
    by (simp add: ci_assign_all_def p)
  with Cons.IH [OF ci_update_distinct [OF Cons.prems]] show ?case by simp
qed

lemma ci_assign_pairs_distinct:
  "ci_assign_pairs lower m ps = Inr d \<Longrightarrow> distinct (map (lower \<circ> fst) m) \<Longrightarrow>
   distinct (map (lower \<circ> fst) d)"
proof (induction ps arbitrary: m)
  case Nil
  then show ?case by simp
next
  case (Cons p ps)
  obtain k v where p: "p = (k, v)" by (cases p)
  from Cons.prems(1) obtain key where k: "k = PStr key"
    by (cases k) (auto simp: p)
  from Cons.prems(1) have "ci_assign_pairs lower (ci_update lower key (Finding v) m) ps = Inr d"
    by (simp add: p k)
  from Cons.IH [OF this ci_update_distinct [OF Cons.prems(2)]] show ?case .
qed

lemma case_insensitive_dict_distinct:
  "case_insensitive_dict lower x = Inr d \<Longrightarrow> distinct (map (lower \<circ> fst) d)"
proof (cases x)
  case (PDict kvs)
  assume "case_insensitive_dict lower x = Inr d"
  with PDict have "d = ci_assign_all lower [] kvs" by simp
  then show ?thesis by (simp add: ci_assign_all_distinct)
next
  case (PList xs)
  assume "case_insensitive_dict lower x = Inr d"
  with PList obtain ps where "ci_assign_pairs lower [] ps = Inr d"
    by (cases "as_pairs xs") auto
  then show ?thesis by (rule ci_assign_pairs_distinct) simp
qed (auto split: if_splits)

lemma module_hosts_loop_append:
  "module_hosts_loop lower module (xs @ ys) st =
     and_then (module_hosts_loop lower module xs st) (module_hosts_loop lower module ys)"
proof (induction xs arbitrary: st)
  case Nil
  then show ?case by simp
next
  case (Cons p xs)
  obtain h r where p: "p = (h, r)" by (cases p)
  show ?case
    by (cases "module_host_step lower module h r st") (simp_all add: p Cons.IH)
qed

lemma module_host_step_entry:
  assumes "module_host_step lower module hostname r (e, raws, hs) = Inr (e', raws', hs')"
    and "py_getitem r module = Inr v" and "py_getitem v ''Entry'' = Inr x"
  shows "\<exists>d. case_insensitive_dict lower x = Inr d \<and> e' = CaseInsensitive d \<and> hs' \<noteq> []"
proof -
  from assms(2) have in1: "py_in module r = Inr True"
    by (cases r) (auto split: option.splits)
  from assms(3) have in2: "py_in ''Entry'' v = Inr True"
    by (cases v) (auto split: option.splits)
  from assms(1) in1 in2 assms(2,3) show ?thesis
    by (auto simp: module_host_step_def and_then_Inr_iff split: if_splits)
qed

lemma module_host_step_no_entry:
  assumes "module_host_step lower module hostname r (e, raws, hs) = Inr (e', raws', hs')"
    and "no_entry module r"
  shows "e' = e \<and> (hs \<noteq> [] \<longrightarrow> hs' \<noteq> [])"
  using assms
  by (auto simp: module_host_step_def and_then_Inr_iff no_entry_def split: if_splits sum.splits)

lemma module_hosts_loop_no_entry:
  "module_hosts_loop lower module post (e, raws, hs) = Inr (e', raws', hs') \<Longrightarrow>
   \<forall>(h, r) \<in> set post. no_entry module r \<Longrightarrow>
   e' = e \<and> (hs \<noteq> [] \<longrightarrow> hs' \<noteq> [])"
proof (induction post arbitrary: raws hs)
  case Nil
  then show ?case by simp
next
  case (Cons p post)
  obtain h r where p: "p = (h, r)" by (cases p)
  from Cons.prems(1) obtain e1 raws1 hs1 where
    s1: "module_host_step lower module h r (e, raws, hs) = Inr (e1, raws1, hs1)" and
    s2: "module_hosts_loop lower module post (e1, raws1, hs1) = Inr (e', raws', hs')"
    by (auto simp: p and_then_Inr_iff)
  from Cons.prems(2) have n: "no_entry module r" and rest: "\<forall>(h, r) \<in> set post. no_entry module r"
    by (auto simp: p)
  from module_host_step_no_entry [OF s1 n] have e1: "e1 = e" and h1: "hs \<noteq> [] \<longrightarrow> hs1 \<noteq> []"
    by simp_all
  from Cons.IH [OF s2 [unfolded e1] rest] h1 show ?case by simp
qed

lemma module_hosts_loop_last_entry:
  assumes "module_hosts_loop lower module (pre @ (hostname, r) # post) st = Inr (e', raws', hs')"
    and "py_getitem r module = Inr v" and "py_getitem v ''Entry'' = Inr x"
    and "\<forall>(h, r') \<in> set post. no_entry module r'"
  shows "\<exists>d. case_insensitive_dict lower x = Inr d \<and> e' = CaseInsensitive d \<and> hs' \<noteq> []"
proof -
  from assms(1) obtain e1 raws1 hs1 e2 raws2 hs2 where
    s1: "module_hosts_loop lower module pre st = Inr (e1, raws1, hs1)" and
    s2: "module_host_step lower module hostname r (e1, raws1, hs1) = Inr (e2, raws2, hs2)" and
    s3: "module_hosts_loop lower module post (e2, raws2, hs2) = Inr (e', raws', hs')"
    by (auto simp: module_hosts_loop_append and_then_Inr_iff)
  from module_host_step_entry [OF s2 assms(2,3)] obtain d where
    d: "case_insensitive_dict lower x = Inr d" "e2 = CaseInsensitive d" "hs2 \<noteq> []"
    by blast
  from module_hosts_loop_no_entry [OF s3 assms(4)] d show ?thesis
    by simp
qed

lemma py_copy_Inr: "py_copy x = Inr c \<Longrightarrow> c = x"
  by (cases x) auto

lemma py_in_False_getitem: "py_in k v = Inr False \<Longrightarrow> \<exists>e. py_getitem v k = Inl e"
  by (cases v) (auto split: option.splits)

lemma py_getitem_in: "py_getitem v k = Inr x \<Longrightarrow> py_in k v = Inr True"
  by (cases v) (auto split: option.splits)

lemma module_host_step_collect:
  assumes "module_host_step lower module hostname r (e, raws, hs) = Inr (e', raws', hs')"
    and "map_of raws hostname = None" and "hostname \<notin> set hs"
  shows "raws' = raws @ host_raw module (hostname, r) \<and>
         hs' = hs @ hosts_with module [(hostname, r)]"
proof -
  from assms(1) obtain present where pr: "py_in module r = Inr present"
    by (auto simp: module_host_step_def and_then_Inr_iff)
  show ?thesis
  proof (cases present)
    case False
    with pr py_in_False_getitem [of module r] assms(1) show ?thesis
      by (auto simp: module_host_step_def hosts_with_def)
  next
    case True
    with pr assms(1) obtain v has_raw where
      v: "py_getitem r module = Inr v" and hr: "py_in ''raw'' v = Inr has_raw" and
      rw: "(if has_raw then
              and_then (py_getitem v ''raw'') (\<lambda>x.
              and_then (py_copy x) (\<lambda>c. Inr (AList.update hostname c raws)))
            else Inr raws) = Inr raws'" and
      hs': "hs' = (if hostname \<in> set hs then hs else hs @ [hostname])"
      by (auto simp: module_host_step_def and_then_Inr_iff split: if_splits)
    have "raws' = raws @ host_raw module (hostname, r)"
    proof (cases has_raw)
      case False
      with hr py_in_False_getitem [of "''raw''" v] rw v show ?thesis
        by auto
    next
      case True
      with rw obtain x c where x: "py_getitem v ''raw'' = Inr x" "py_copy x = Inr c"
        "raws' = AList.update hostname c raws"
        by (auto simp: and_then_Inr_iff)
      from x(2) have "c = x" by (rule py_copy_Inr)
      with x v assms(2) show ?thesis
        by (simp add: update_absent)
    qed
    moreover have "hs' = hs @ hosts_with module [(hostname, r)]"
      using hs' assms(3) pr True by (simp add: hosts_with_def)
    ultimately show ?thesis by simp
  qed
qed

lemma map_of_host_raw: "h \<noteq> hostname \<Longrightarrow> map_of (host_raw module (hostname, r)) h = None"
  by (auto split: sum.splits)

lemma module_hosts_loop_collect:
  "module_hosts_loop lower module results (e, raws, hs) = Inr (e', raws', hs') \<Longrightarrow>
   distinct (map fst results) \<Longrightarrow>
   \<forall>h \<in> fst ` set results. map_of raws h = None \<and> h \<notin> set hs \<Longrightarrow>
   raws' = raws @ raw_payloads module results \<and> hs' = hs @ hosts_with module results"
proof (induction results arbitrary: e raws hs)
  case Nil
  then show ?case by (simp add: raw_payloads_def hosts_with_def)
next
  case (Cons p results)
  obtain h r where p: "p = (h, r)" by (cases p)
  from Cons.prems(1) obtain e1 raws1 hs1 where
    s1: "module_host_step lower module h r (e, raws, hs) = Inr (e1, raws1, hs1)" and
    s2: "module_hosts_loop lower module results (e1, raws1, hs1) = Inr (e', raws', hs')"
    by (auto simp: p and_then_Inr_iff)
  from Cons.prems(3) have h0: "map_of raws h = None" "h \<notin> set hs"
    by (simp_all add: p)
  from module_host_step_collect [OF s1 h0] have
    r1: "raws1 = raws @ host_raw module (h, r)" and
    h1: "hs1 = hs @ hosts_with module [(h, r)]"
    by simp_all
  from Cons.prems(2) have dist: "distinct (map fst results)" and hn: "h \<notin> fst ` set results"
    by (auto simp: p)
  have fresh: "\<forall>k \<in> fst ` set results. map_of raws1 k = None \<and> k \<notin> set hs1"
  proof
    fix k assume k: "k \<in> fst ` set results"
    with hn have kh: "k \<noteq> h" by auto
    from k Cons.prems(3) have "map_of raws k = None" "k \<notin> set hs"
      by (auto simp: p)
    with kh show "map_of raws1 k = None \<and> k \<notin> set hs1"
      by (auto simp: r1 h1 map_add_def map_of_host_raw hosts_with_def simp del: host_raw.simps)
  qed
  from Cons.IH [OF s2 dist fresh] show ?case
    by (simp add: r1 h1 p raw_payloads_def hosts_with_def)
qed

lemma module_step_last_entry:
  assumes "module_step lower (pre @ (hostname, r) # post) module out = Inr out'"
    and "distinct (map fst (pre @ (hostname, r) # post))"
    and "py_getitem r module = Inr v" and "py_getitem v ''Entry'' = Inr x"
    and "\<forall>(h, r') \<in> set post. no_entry module r'"
  shows "\<exists>d. case_insensitive_dict lower x = Inr d \<and>
           hosts_with module (pre @ (hostname, r) # post) \<noteq> [] \<and>
           map_of out' module =
             Some (aggregate lower d (raw_payloads module (pre @ (hostname, r) # post))
                     (hosts_with module (pre @ (hostname, r) # post)))"
proof -
  define results where "results = pre @ (hostname, r) # post"
  define out0 where "out0 = (if map_of out module = None then AList.update module (Plain []) out else out)"
  define e0 where "e0 = (case map_of out0 module of None \<Rightarrow> Plain [] | Some e \<Rightarrow> e)"
  from assms(1) obtain e raws hs where
    loop: "module_hosts_loop lower module results (e0, [], []) = Inr (e, raws, hs)" and
    out': "out' =
       (let e1 = (if raws \<noteq> [] then entry_setitem lower e ''raw'' (Pformat (PDict raws)) else e);
            e2 = (if hs \<noteq> [] then entry_setitem lower e1 ''hosts'' (Hosts hs) else e1)
        in if entry_items e2 = [] then AList.delete module out0 else AList.update module e2 out0)"
    by (auto simp: module_step_def and_then_Inr_iff out0_def e0_def Let_def results_def)
  from module_hosts_loop_last_entry [OF loop [unfolded results_def] assms(3,4,5)] obtain d where
    d: "case_insensitive_dict lower x = Inr d" "e = CaseInsensitive d" "hs \<noteq> []"
    by blast
  from module_hosts_loop_collect [OF loop] assms(2) have
    c: "raws = raw_payloads module results" "hs = hosts_with module results"
    by (simp_all add: results_def)
  define e2 where "e2 = aggregate lower d raws hs"
  have eq: "entry_setitem lower (if raws \<noteq> [] then entry_setitem lower e ''raw'' (Pformat (PDict raws)) else e)
              ''hosts'' (Hosts hs) = e2"
    by (simp add: d e2_def aggregate_def)
  have "(''hosts'', Hosts hs) \<in> set (entry_items e2)"
    unfolding eq [symmetric] by (rule entry_setitem_mem)
  then have "entry_items e2 \<noteq> []" by auto
  then have "out' = AList.update module e2 out0"
    using d(3) eq by (simp add: out' Let_def)
  then have "map_of out' module = Some e2"
    by (simp add: update_conv')
  with d(1,3) c show ?thesis
    by (simp add: e2_def results_def)
qed

lemma module_step_other:
  assumes "module_step lower results m out = Inr out'" and "m \<noteq> module"
  shows "map_of out' module = map_of out module"
  using assms
  by (auto simp: module_step_def and_then_Inr_iff Let_def update_conv' delete_conv'
           split: if_splits)

lemma modules_loop_other:
  "modules_loop lower results ms out = Inr out' \<Longrightarrow> module \<notin> set ms \<Longrightarrow>
   map_of out' module = map_of out module"
proof (induction ms arbitrary: out)
  case Nil
  then show ?case by simp
next
  case (Cons m ms)
  from Cons.prems(1) obtain out1 where
    s1: "module_step lower results m out = Inr out1" and
    s2: "modules_loop lower results ms out1 = Inr out'"
    by (auto simp: and_then_Inr_iff)
  from Cons.prems(2) have "m \<noteq> module" "module \<notin> set ms" by auto
  with module_step_other [OF s1] Cons.IH [OF s2] show ?case by simp
qed

lemma modules_loop_last_entry:
  "modules_loop lower (pre @ (hostname, r) # post) ms out = Inr out' \<Longrightarrow>
   distinct (map fst (pre @ (hostname, r) # post)) \<Longrightarrow>
   distinct ms \<Longrightarrow> module \<in> set ms \<Longrightarrow>
   py_getitem r module = Inr v \<Longrightarrow> py_getitem v ''Entry'' = Inr x \<Longrightarrow>
   \<forall>(h, r') \<in> set post. no_entry module r' \<Longrightarrow>
   \<exists>d. case_insensitive_dict lower x = Inr d \<and>
     hosts_with module (pre @ (hostname, r) # post) \<noteq> [] \<and>
     map_of out' module =
       Some (aggregate lower d (raw_payloads module (pre @ (hostname, r) # post))
               (hosts_with module (pre @ (hostname, r) # post)))"
proof (induction ms arbitrary: out)
  case Nil
  then show ?case by simp
next
  case (Cons m ms)
  from Cons.prems(1) obtain out1 where
    s1: "module_step lower (pre @ (hostname, r) # post) m out = Inr out1" and
    s2: "modules_loop lower (pre @ (hostname, r) # post) ms out1 = Inr out'"
    by (auto simp: and_then_Inr_iff)
  show ?case
  proof (cases "m = module")
    case True
    with Cons.prems(3) have "module \<notin> set ms" by simp
    from modules_loop_other [OF s2 this]
      module_step_last_entry [OF s1 [unfolded True] Cons.prems(2,5,6,7)]
    show ?thesis by auto
  next
    case False
    with Cons.prems(3,4) have "distinct ms" "module \<in> set ms" by auto
    from Cons.IH [OF s2 Cons.prems(2) this Cons.prems(5,6,7)] show ?thesis .
  qed
qed

text \<open>
  Claim C5, as the code has it. Let the module-grouped formatter end without an
  exception on a tree with distinct hostnames, for distinct requested modules; let a
  host have an \<^verbatim>\<open>"Entry"\<close> for a requested module, and let no later host have one. Then
  the entry of the module in the view is the case-insensitive dictionary made of this
  \<^verbatim>\<open>"Entry"\<close> alone, whatever the hosts before it have: nothing is merged. On this
  dictionary \<^verbatim>\<open>"raw"\<close> is assigned, exactly when some host has raw output for the
  module, with the text of the raw outputs by host; and then \<^verbatim>\<open>"hosts"\<close>, with the hosts
  that have the module, of which there is one at least. In the dictionary made of the
  \<^verbatim>\<open>"Entry"\<close> no two keys have the same \<^verbatim>\<open>lower()\<close>: of the keys of one \<^verbatim>\<open>"Entry"\<close>
  that differ by case only, one field stays, with the last spelling and value.
\<close>

theorem C5_last_entry_replaces_aggregate:
  assumes "modules_report_formatter lower (pre @ (hostname, r) # post) modules = Inr out"
    and "distinct (map fst (pre @ (hostname, r) # post))"
    and "distinct modules" and "module \<in> set modules"
    and "py_getitem r module = Inr v" and "py_getitem v ''Entry'' = Inr x"
    and "\<forall>(h, r') \<in> set post. no_entry module r'"
  shows "\<exists>d. case_insensitive_dict lower x = Inr d \<and> distinct (map (lower \<circ> fst) d) \<and>
           hosts_with module (pre @ (hostname, r) # post) \<noteq> [] \<and>
           map_of out module =
             Some (CaseInsensitive
               (ci_update lower ''hosts'' (Hosts (hosts_with module (pre @ (hostname, r) # post)))
                  (if raw_payloads module (pre @ (hostname, r) # post) \<noteq> []
                   then ci_update lower ''raw''
                          (Pformat (PDict (raw_payloads module (pre @ (hostname, r) # post)))) d
                   else d)))"
proof -
  have "modules_loop lower (pre @ (hostname, r) # post) modules [] = Inr out"
    using assms(1) by (simp add: modules_report_formatter_def)
  from modules_loop_last_entry [OF this assms(2-7)] obtain d where
    d: "case_insensitive_dict lower x = Inr d"
      "hosts_with module (pre @ (hostname, r) # post) \<noteq> []"
      "map_of out module =
         Some (aggregate lower d (raw_payloads module (pre @ (hostname, r) # post))
                 (hosts_with module (pre @ (hostname, r) # post)))"
    by blast
  from d(1) have "distinct (map (lower \<circ> fst) d)"
    by (rule case_insensitive_dict_distinct)
  with d show ?thesis
    unfolding aggregate_def by blast
qed

text \<open>The theorem at three hosts: the first has an \<^verbatim>\<open>"Entry"\<close> with the field \<^verbatim>\<open>a\<close>, the
  second one with the keys \<^verbatim>\<open>Foo\<close> and \<^verbatim>\<open>foo\<close>, the third has none. The view has the
  single field \<^verbatim>\<open>foo\<close>, the raw outputs of the three hosts and the three hosts.\<close>

theorem C5_last_entry_replaces_aggregate_witness:
  "modules_report_formatter ascii_lower
     (hosts_before @ (''h2'', host_with_entry) # hosts_after) [''m''] = Inr view_last_entry \<and>
   distinct (map fst
     (hosts_before @ (''h2'', host_with_entry) # hosts_after)) \<and>
   distinct [''m''] \<and> ''m'' \<in> set [''m''] \<and>
   py_getitem (host_with_entry) ''m'' =
     Inr (PDict [(''Entry'', PDict [(''Foo'', PInt 1), (''foo'', PInt 2)]), (''raw'', PDict [(''x'', PInt 1)])]) \<and>
   py_getitem (PDict [(''Entry'', PDict [(''Foo'', PInt 1), (''foo'', PInt 2)]), (''raw'', PDict [(''x'', PInt 1)])]) ''Entry'' =
     Inr (PDict [(''Foo'', PInt 1), (''foo'', PInt 2)]) \<and>
   no_entry ''m'' (PDict [(''m'', PDict [(''raw'', PDict [])])]) \<and>
   (\<exists>d. case_insensitive_dict ascii_lower (PDict [(''Foo'', PInt 1), (''foo'', PInt 2)]) = Inr d \<and> distinct (map (ascii_lower \<circ> fst) d) \<and>
           hosts_with ''m'' (hosts_before @ (''h2'', host_with_entry) # hosts_after) \<noteq> [] \<and>
           map_of view_last_entry ''m'' =
             Some (CaseInsensitive
               (ci_update ascii_lower ''hosts'' (Hosts (hosts_with ''m'' (hosts_before @ (''h2'', host_with_entry) # hosts_after)))
                  (if raw_payloads ''m'' (hosts_before @ (''h2'', host_with_entry) # hosts_after) \<noteq> []
                   then ci_update ascii_lower ''raw''
                          (Pformat (PDict (raw_payloads ''m'' (hosts_before @ (''h2'', host_with_entry) # hosts_after)))) d
                   else d))))"
proof -
  have h1: "modules_report_formatter ascii_lower
     (hosts_before @ (''h2'', host_with_entry) # hosts_after) [''m''] = Inr view_last_entry"
    by code_simp
  have h2: "distinct (map fst
     (hosts_before @ (''h2'', host_with_entry) # hosts_after))"
    by (simp add: hosts_before_def hosts_after_def)
  have h3: "distinct [''m'']" by simp
  have h4: "''m'' \<in> set [''m'']" by simp
  have h5: "py_getitem (host_with_entry) ''m'' =
     Inr (PDict [(''Entry'', PDict [(''Foo'', PInt 1), (''foo'', PInt 2)]), (''raw'', PDict [(''x'', PInt 1)])])"
    by (simp add: host_with_entry_def)
  have h6: "py_getitem (PDict [(''Entry'', PDict [(''Foo'', PInt 1), (''foo'', PInt 2)]), (''raw'', PDict [(''x'', PInt 1)])]) ''Entry'' =
     Inr (PDict [(''Foo'', PInt 1), (''foo'', PInt 2)])"
    by simp
  have h7': "no_entry ''m'' (PDict [(''m'', PDict [(''raw'', PDict [])])])"
    by (simp add: no_entry_def)
  then have h7: "\<forall>(h, r') \<in> set hosts_after. no_entry ''m'' r'"
    by (simp add: hosts_after_def)
  note c = C5_last_entry_replaces_aggregate [OF h1 h2 h3 h4 h5 h6 h7]
  show ?thesis
    by (intro conjI) (rule h1, rule h2, rule h3, rule h4, rule h5, rule h6, rule h7', rule c)
qed

text \<open>Against claim C5 as it is written: the first host gives the field \<^verbatim>\<open>a\<close>, the second
  host has not this field, and the field is not in the entry of the view.\<close>

theorem C5_counterexample:
  "\<not> (\<exists>out e. modules_report_formatter ascii_lower results_two_entries [''m''] = Inr out \<and>
          map_of out ''m'' = Some e \<and> map_of (entry_items e) ''a'' \<noteq> None)"
proof -
  have "modules_report_formatter ascii_lower results_two_entries [''m''] =
          Inr [(''m'', CaseInsensitive
                 [(''b'', Finding (PInt 2)),
                  (''raw'', Pformat (PDict [(''h1'', PDict []), (''h2'', PDict [])])),
                  (''hosts'', Hosts [''h1'', ''h2''])])]"
    by code_simp
  then show ?thesis by simp
qed

section \<open>Properties of the view grouped by host\<close>

lemma host_module_step_Inr:
  assumes "host_module_step lower module v acc = Inr acc'"
  shows "(py_in ''Entry'' v = Inr False \<and> acc' = acc) \<or>
         (py_in ''Entry'' v = Inr True \<and> (\<exists>e. acc' = AList.update module e acc))"
proof -
  from assms obtain b where b: "py_in ''Entry'' v = Inr b"
    by (cases "py_in ''raw'' v"; cases "py_in ''Entry'' v";
        cases "if projr (py_in ''raw'' v) then and_then (py_getitem v ''raw'') py_copy else Inr (PDict [])")
       (auto simp: host_module_step_def)
  show ?thesis
  proof (cases b)
    case False
    with assms b show ?thesis
      by (cases "py_in ''raw'' v";
          cases "if projr (py_in ''raw'' v) then and_then (py_getitem v ''raw'') py_copy else Inr (PDict [])")
         (auto simp: host_module_step_def)
  next
    case True
    with assms b show ?thesis
      by (cases "py_in ''raw'' v";
          cases "if projr (py_in ''raw'' v) then and_then (py_getitem v ''raw'') py_copy else Inr (PDict [])";
          cases "py_getitem v ''Entry''"; cases "case_insensitive_dict lower (projr (py_getitem v ''Entry''))")
         (auto simp: host_module_step_def)
  qed
qed

lemma host_modules_loop_keys:
  "host_modules_loop lower d acc = Inr acc' \<Longrightarrow> distinct (map fst d) \<Longrightarrow>
   \<forall>m \<in> fst ` set d. map_of acc m = None \<Longrightarrow>
   map fst acc' =
     map fst acc @ map fst (filter (\<lambda>(m, v). py_in ''Entry'' v = Inr True) d)"
proof (induction d arbitrary: acc)
  case Nil
  then show ?case by simp
next
  case (Cons p d)
  obtain m v where p: "p = (m, v)" by (cases p)
  from Cons.prems(1) obtain acc1 where
    s1: "host_module_step lower m v acc = Inr acc1" and s2: "host_modules_loop lower d acc1 = Inr acc'"
    by (cases "host_module_step lower m v acc") (auto simp: p)
  from Cons.prems(2) have dist: "distinct (map fst d)" and mnot: "m \<notin> fst ` set d"
    by (auto simp: p)
  from Cons.prems(3) have macc: "map_of acc m = None" and
    rest: "\<forall>k \<in> fst ` set d. map_of acc k = None"
    by (auto simp: p)
  from host_module_step_Inr [OF s1] show ?case
  proof (elim disjE conjE exE)
    assume e: "py_in ''Entry'' v = Inr False" and a: "acc1 = acc"
    from Cons.IH [OF s2 [unfolded a] dist rest] e show ?thesis
      by (simp add: p)
  next
    fix e assume e: "py_in ''Entry'' v = Inr True" and a: "acc1 = AList.update m e acc"
    from a macc have a': "acc1 = acc @ [(m, e)]"
      by (simp add: update_absent)
    have "\<forall>k \<in> fst ` set d. map_of acc1 k = None"
      using rest mnot by (auto simp: a' map_add_def split: option.splits)
    from Cons.IH [OF s2 dist this] e show ?thesis
      by (simp add: p a')
  qed
qed

lemma hosts_loop_shape:
  "hosts_loop lower results out = Inr out' \<Longrightarrow> distinct (map fst results) \<Longrightarrow>
   \<forall>h \<in> fst ` set results. map_of out h = None \<Longrightarrow>
   \<exists>new. out' = out @ new \<and> map fst new = map fst results \<and>
     (\<forall>(h, r) \<in> set results. \<exists>acc. map_of new h = Some acc \<and> host_modules lower r [] = Inr acc)"
proof (induction results arbitrary: out)
  case Nil
  then show ?case by simp
next
  case (Cons p results)
  obtain h r where p: "p = (h, r)" by (cases p)
  from Cons.prems(3) have hout: "map_of out h = None" and
    rest: "\<forall>k \<in> fst ` set results. map_of out k = None"
    by (auto simp: p)
  from Cons.prems(2) have dist: "distinct (map fst results)" and hnot: "h \<notin> fst ` set results"
    by (auto simp: p)
  have out0: "AList.update h [] out = out @ [(h, [])]"
    using hout by (rule update_absent)
  from Cons.prems(1) hout obtain acc where
    s1: "host_modules lower r [] = Inr acc" and
    s2: "hosts_loop lower results (AList.update h acc (out @ [(h, [])])) = Inr out'"
    by (cases "host_modules lower r []") (auto simp: p out0 Let_def map_add_def hout)
  have out1: "AList.update h acc (out @ [(h, [])]) = out @ [(h, acc)]"
    using hout by (rule update_last)
  have "\<forall>k \<in> fst ` set results. map_of (out @ [(h, acc)]) k = None"
    using rest hnot by (auto simp: map_add_def split: option.splits)
  from Cons.IH [OF s2 [unfolded out1] dist this] obtain new where
    n1: "out' = (out @ [(h, acc)]) @ new" and n2: "map fst new = map fst results" and
    n3: "\<forall>(h, r) \<in> set results. \<exists>acc. map_of new h = Some acc \<and> host_modules lower r [] = Inr acc"
    by blast
  have "out' = out @ ((h, acc) # new)" using n1 by simp
  moreover have "map fst ((h, acc) # new) = map fst (p # results)" using n2 by (simp add: p)
  moreover have "\<forall>(h', r') \<in> set (p # results).
      \<exists>acc'. map_of ((h, acc) # new) h' = Some acc' \<and> host_modules lower r' [] = Inr acc'"
  proof (clarify)
    fix h' r' assume mem: "(h', r') \<in> set (p # results)"
    show "\<exists>acc'. map_of ((h, acc) # new) h' = Some acc' \<and> host_modules lower r' [] = Inr acc'"
    proof (cases "(h', r') = (h, r)")
      case True
      with s1 show ?thesis by simp
    next
      case False
      with mem have mem': "(h', r') \<in> set results" by (auto simp: p)
      with hnot have "h' \<noteq> h" by force
      moreover from n3 mem' obtain acc' where
        "map_of new h' = Some acc'" "host_modules lower r' [] = Inr acc'" by blast
      ultimately show ?thesis by simp
    qed
  qed
  ultimately show ?case by blast
qed

text \<open>
  Claim C10. When the host-grouped formatter ends without an exception on a tree with
  distinct hostnames, the view has an entry for every hostname of the tree, in the
  order of the tree. For a host whose record is a dictionary (with distinct keys): when
  none of its modules has an \<^verbatim>\<open>"Entry"\<close>, the host is mapped to the empty record; and
  a module that has \<^verbatim>\<open>"raw"\<close> and no \<^verbatim>\<open>"Entry"\<close> is not in the host's record, so its
  raw output is not in the view.
\<close>

theorem C10_hosts_view_entries:
  assumes "hosts_report_formatter lower results = Inr out" and "distinct (map fst results)"
  shows "map fst out = map fst results \<and>
         (\<forall>(hostname, r) \<in> set results. \<forall>d. r = PDict d \<and> distinct (map fst d) \<longrightarrow>
            (\<exists>acc. map_of out hostname = Some acc \<and>
               ((\<forall>(module, v) \<in> set d. py_in ''Entry'' v = Inr False) \<longrightarrow> acc = []) \<and>
               (\<forall>(module, v) \<in> set d.
                  py_in ''raw'' v = Inr True \<and> py_in ''Entry'' v = Inr False \<longrightarrow>
                  map_of acc module = None)))"
proof -
  from hosts_loop_shape [where lower = lower and results = results and out = "[]" and out' = out] assms obtain new where
    n1: "out = new" and n2: "map fst new = map fst results" and
    n3: "\<forall>(h, r) \<in> set results. \<exists>acc. map_of new h = Some acc \<and> host_modules lower r [] = Inr acc"
    by (auto simp: hosts_report_formatter_def)
  have "\<exists>acc. map_of out hostname = Some acc \<and>
               ((\<forall>(module, v) \<in> set d. py_in ''Entry'' v = Inr False) \<longrightarrow> acc = []) \<and>
               (\<forall>(module, v) \<in> set d.
                  py_in ''raw'' v = Inr True \<and> py_in ''Entry'' v = Inr False \<longrightarrow>
                  map_of acc module = None)"
    if mem: "(hostname, PDict d) \<in> set results" and dist: "distinct (map fst d)"
    for hostname d
  proof -
    from n3 mem n1 obtain acc where
      a1: "map_of out hostname = Some acc" and a2: "host_modules_loop lower d [] = Inr acc"
      by fastforce
    from host_modules_loop_keys [OF a2 dist]
    have keys: "map fst acc = map fst (filter (\<lambda>(m, v). py_in ''Entry'' v = Inr True) d)"
      by simp
    have c1: "(\<forall>(module, v) \<in> set d. py_in ''Entry'' v = Inr False) \<longrightarrow> acc = []"
    proof
      assume "\<forall>(module, v) \<in> set d. py_in ''Entry'' v = Inr False"
      then have "filter (\<lambda>(m, v). py_in ''Entry'' v = Inr True) d = []"
        by (auto simp: filter_empty_conv)
      with keys show "acc = []" by simp
    qed
    have c2: "\<forall>(module, v) \<in> set d.
                  py_in ''raw'' v = Inr True \<and> py_in ''Entry'' v = Inr False \<longrightarrow>
                  map_of acc module = None"
    proof (clarify)
      fix module v
      assume mv: "(module, v) \<in> set d" and e: "py_in ''Entry'' v = Inr False"
      have "module \<notin> set (map fst (filter (\<lambda>(m, v). py_in ''Entry'' v = Inr True) d))"
      proof
        assume "module \<in> set (map fst (filter (\<lambda>(m, v). py_in ''Entry'' v = Inr True) d))"
        then obtain v' where v': "(module, v') \<in> set d" "py_in ''Entry'' v' = Inr True"
          by auto
        from dist mv v'(1) have "v' = v"
          by (meson eq_key_imp_eq_value)
        with v'(2) e show False by simp
      qed
      with keys show "map_of acc module = None"
        by (metis map_of_eq_None_iff set_map)
    qed
    from a1 c1 c2 show ?thesis by blast
  qed
  with n1 n2 show ?thesis by blast
qed

text \<open>The theorem at two hosts: the first has a module with an \<^verbatim>\<open>"Entry"\<close> and one with
  raw output only, the second has raw output only.\<close>

theorem C10_hosts_view_entries_witness:
  "hosts_report_formatter ascii_lower results_hosts = Inr view_by_host \<and>
   distinct (map fst results_hosts) \<and>
   map fst view_by_host = map fst results_hosts \<and>
   (\<exists>acc. map_of view_by_host ''h1'' = Some acc \<and>
      ((\<forall>(module, v) \<in> set [(''m1'', PDict [(''Entry'', PDict [(''a'', PInt 1)]), (''raw'', PDict [(''x'', PInt 1)])]),
          (''m2'', PDict [(''other'', PInt 2), (''raw'', PDict [(''other'', PInt 2)])])]. py_in ''Entry'' v = Inr False) \<longrightarrow> acc = []) \<and>
      (\<forall>(module, v) \<in> set [(''m1'', PDict [(''Entry'', PDict [(''a'', PInt 1)]), (''raw'', PDict [(''x'', PInt 1)])]),
          (''m2'', PDict [(''other'', PInt 2), (''raw'', PDict [(''other'', PInt 2)])])].
         py_in ''raw'' v = Inr True \<and> py_in ''Entry'' v = Inr False \<longrightarrow>
         map_of acc module = None)) \<and>
   (\<exists>acc. map_of view_by_host ''h2'' = Some acc \<and>
      ((\<forall>(module, v) \<in> set [(''m2'', PDict [(''other'', PInt 3), (''raw'', PDict [(''other'', PInt 3)])])]. py_in ''Entry'' v = Inr False) \<longrightarrow> acc = []) \<and>
      (\<forall>(module, v) \<in> set [(''m2'', PDict [(''other'', PInt 3), (''raw'', PDict [(''other'', PInt 3)])])].
         py_in ''raw'' v = Inr True \<and> py_in ''Entry'' v = Inr False \<longrightarrow>
         map_of acc module = None))"
proof -
  have h1: "hosts_report_formatter ascii_lower results_hosts = Inr view_by_host"
    by code_simp
  have h2: "distinct (map fst results_hosts)"
    by (simp add: results_hosts_def)
  note t = C10_hosts_view_entries [OF h1 h2]
  have mem1: "(''h1'', PDict [(''m1'', PDict [(''Entry'', PDict [(''a'', PInt 1)]), (''raw'', PDict [(''x'', PInt 1)])]),
          (''m2'', PDict [(''other'', PInt 2), (''raw'', PDict [(''other'', PInt 2)])])]) \<in> set results_hosts"
    by (simp add: results_hosts_def)
  have mem2: "(''h2'', PDict [(''m2'', PDict [(''other'', PInt 3), (''raw'', PDict [(''other'', PInt 3)])])]) \<in> set results_hosts"
    by (simp add: results_hosts_def)
  have d1: "distinct (map fst [(''m1'', PDict [(''Entry'', PDict [(''a'', PInt 1)]), (''raw'', PDict [(''x'', PInt 1)])]),
          (''m2'', PDict [(''other'', PInt 2), (''raw'', PDict [(''other'', PInt 2)])])])"
    by simp
  have d2: "distinct (map fst [(''m2'', PDict [(''other'', PInt 3), (''raw'', PDict [(''other'', PInt 3)])])])"
    by simp
  note c1 = t [THEN conjunct1]
  note c2 = bspec [OF t [THEN conjunct2] mem1, unfolded prod.case, rule_format,
                   OF conjI [OF refl d1]]
  note c3 = bspec [OF t [THEN conjunct2] mem2, unfolded prod.case, rule_format,
                   OF conjI [OF refl d2]]
  show ?thesis
    by (intro conjI) (rule h1, rule h2, rule c1, rule c2, rule c3)
qed

section \<open>The report on the scenarios\<close>

text \<open>
  Claim C1, as the code has it. For the input
  \<^verbatim>\<open>{"h1": {"loaded_modules": {"m1": {}}, "results": {"m1": {"mitigation": {"risk": "high"}, "other": 1}}}}\<close>
  and the mode \<^verbatim>\<open>MODULES\<close>, the view maps \<^verbatim>\<open>m1\<close> to exactly the text of
  \<^verbatim>\<open>{'h1': {'other': 1}}\<close> under \<^verbatim>\<open>"raw"\<close> and \<^verbatim>\<open>["h1"]\<close> under \<^verbatim>\<open>"hosts"\<close>. The
  formatter takes the finding fields from the mapping under \<^verbatim>\<open>"Entry"\<close> of the
  mitigation: with the mitigation \<^verbatim>\<open>{"Entry": {"risk": "high"}}\<close> the view maps \<^verbatim>\<open>m1\<close> to
  \<^verbatim>\<open>risk\<close>, \<^verbatim>\<open>raw\<close> and \<^verbatim>\<open>hosts\<close>.
\<close>

theorem C1_modules_view_of_scenario:
  "run ascii_lower MODULES tree_risk =
     Inr (Modules_view
       [(''m1'', Plain
          [(''raw'', Pformat (PDict [(''h1'', PDict [(''other'', PInt 1)])])),
           (''hosts'', Hosts [''h1''])])]) \<and>
   run ascii_lower MODULES tree_risk_entry =
     Inr (Modules_view
       [(''m1'', CaseInsensitive
          [(''risk'', Finding (PStr ''high'')),
           (''raw'', Pformat (PDict [(''h1'', PDict [(''other'', PInt 1)])])),
           (''hosts'', Hosts [''h1''])])])"
  by code_simp

text \<open>Against claim C1 as it is written: in the view of the scenario, the entry of
  \<^verbatim>\<open>m1\<close> has no field \<^verbatim>\<open>risk\<close> with the value \<^verbatim>\<open>"high"\<close>.\<close>

theorem C1_counterexample:
  "\<not> (\<exists>out e. run ascii_lower MODULES tree_risk = Inr (Modules_view out) \<and>
          map_of out ''m1'' = Some e \<and>
          map_of (entry_items e) ''risk'' = Some (Finding (PStr ''high'')))"
proof -
  have "run ascii_lower MODULES tree_risk =
     Inr (Modules_view
       [(''m1'', Plain
          [(''raw'', Pformat (PDict [(''h1'', PDict [(''other'', PInt 1)])])),
           (''hosts'', Hosts [''h1''])])])"
    by code_simp
  then show ?thesis by simp
qed

text \<open>
  Claim C2 does not hold of the code. A host declares the compliance module
  \<^verbatim>\<open>compare_one\<close> and has results of another module only. Flattening reads the module
  with \<^verbatim>\<open>get\<close>, which allows for its absence, and then deletes it with \<^verbatim>\<open>del\<close>, which
  does not: the run raises \<^verbatim>\<open>KeyError\<close> for \<^verbatim>\<open>compare_one\<close>.
\<close>

theorem C2_absent_compliance_module_raises:
  "run ascii_lower MODULES tree_compliance_absent = Inl (KeyError ''compare_one'')"
  by code_simp

end
